theory Spec2Isabelle
  imports Main
begin

section \<open>Strings of the host language\<close>

text \<open>
  A JavaScript string is a sequence of UTF-16 code units, and \<open>length\<close>, \<open>slice\<close>,
  \<open>includes\<close> and the regular expressions of the route handler (none has the \<open>u\<close>
  flag) all count code units. A string is therefore modelled as a list of code units,
  each an integer (from 0 to 65535 in any real string). The literals of the source
  contain two characters outside ASCII, the bullet U+2022 and the em dash U+2014, which
  are single code units; \<open>js\<close> embeds an ASCII literal.

  The case maps \<open>toLowerCase\<close> and \<open>toUpperCase\<close> are functions of the runtime: they
  follow the Unicode tables of the engine that runs the handler, which are no part of
  the repository. They are taken as a parameter, the record \<open>Runtime\<close> below, by every
  function of the handler that calls them; a theorem stated for every runtime holds
  whatever these tables are.
\<close>

type_synonym unit16 = int

type_synonym jstring = "unit16 list"

definition js :: "string \<Rightarrow> jstring" where
  "js s = map of_char s"

definition bullet :: unit16 where
  "bullet = 8226"

definition emdash :: unit16 where
  "emdash = 8212"

definition isSpace :: "unit16 \<Rightarrow> bool" where
  \<comment> \<open>WhiteSpace and LineTerminator of ECMAScript: what \<open>\s\<close> and \<open>trim\<close> recognise\<close>
  "isSpace c \<longleftrightarrow>
     c = 9 \<or> c = 10 \<or> c = 11 \<or> c = 12 \<or> c = 13 \<or> c = 32 \<or> c = 160 \<or> c = 5760 \<or>
     (8192 \<le> c \<and> c \<le> 8202) \<or> c = 8232 \<or> c = 8233 \<or> c = 8239 \<or> c = 8287 \<or>
     c = 12288 \<or> c = 65279"

definition isDigit :: "unit16 \<Rightarrow> bool" where
  "isDigit c \<longleftrightarrow> 48 \<le> c \<and> c \<le> 57"

definition isUpperAscii :: "unit16 \<Rightarrow> bool" where
  "isUpperAscii c \<longleftrightarrow> 65 \<le> c \<and> c \<le> 90"

definition isLowerAscii :: "unit16 \<Rightarrow> bool" where
  "isLowerAscii c \<longleftrightarrow> 97 \<le> c \<and> c \<le> 122"

definition isWord :: "unit16 \<Rightarrow> bool" where
  \<comment> \<open>\<open>\w\<close>: \<open>[A-Za-z0-9_]\<close>\<close>
  "isWord c \<longleftrightarrow> isUpperAscii c \<or> isLowerAscii c \<or> isDigit c \<or> c = 95"

record Runtime =
  toLowerCase :: "jstring \<Rightarrow> jstring"
  toUpperCase :: "jstring \<Rightarrow> jstring"

definition slice :: "jstring \<Rightarrow> nat \<Rightarrow> nat \<Rightarrow> jstring" where
  \<comment> \<open>\<open>s.slice(a, b)\<close> for \<open>0 \<le> a\<close>, \<open>0 \<le> b\<close>\<close>
  "slice s a b = take (b - a) (drop a s)"

definition trim :: "jstring \<Rightarrow> jstring" where
  "trim s = rev (dropWhile isSpace (rev (dropWhile isSpace s)))"

fun startsWith :: "jstring \<Rightarrow> jstring \<Rightarrow> bool" where
  "startsWith s [] = True"
| "startsWith [] (w # ws) = False"
| "startsWith (c # cs) (w # ws) = (c = w \<and> startsWith cs ws)"

fun jsIncludes :: "jstring \<Rightarrow> jstring \<Rightarrow> bool" where
  \<comment> \<open>\<open>s.includes(w)\<close>\<close>
  "jsIncludes [] w = (w = [])"
| "jsIncludes (c # cs) w = (startsWith (c # cs) w \<or> jsIncludes cs w)"

fun join :: "jstring \<Rightarrow> jstring list \<Rightarrow> jstring" where
  "join sep [] = []"
| "join sep [x] = x"
| "join sep (x # y # ys) = x @ sep @ join sep (y # ys)"

definition truthy :: "jstring \<Rightarrow> bool" where
  \<comment> \<open>a string is falsy exactly when it is empty\<close>
  "truthy s \<longleftrightarrow> s \<noteq> []"

definition truthyOpt :: "jstring option \<Rightarrow> bool" where
  \<comment> \<open>an optional string: \<open>undefined\<close> and the empty string are falsy\<close>
  "truthyOpt v \<longleftrightarrow> (case v of None \<Rightarrow> False | Some s \<Rightarrow> s \<noteq> [])"

function showNat :: "nat \<Rightarrow> jstring" where
  "showNat n = (if n < 10 then [48 + int n] else showNat (n div 10) @ [48 + int (n mod 10)])"
  by pat_completeness auto
termination
  by (relation "measure (\<lambda>n. n)") auto

declare showNat.simps [simp del]

section \<open>Regular expressions\<close>

text \<open>
  The patterns of the source are written as terms of \<open>rx\<close> and run by a backtracking
  matcher that returns, for a start state, the end states in the order in which the
  ECMAScript matcher tries them: alternatives left to right, quantifiers greedy. A
  position in the subject is a cursor: the text before it, reversed, and the text after
  it; its index is the length of the first. A state is a cursor and the text captured by
  group 1. Every \<open>+\<close> and \<open>*\<close> of the source applies to a character class, so \<open>Plus\<close>
  takes a class; \<open>x*\<close> is \<open>Opt (Plus x)\<close> and \<open>x{1,2}\<close> is \<open>Seq x (Opt x)\<close>. The only
  lookbehind is one character class wide.

  With the \<open>i\<close> flag (and no \<open>u\<close> flag) two code units match when their canonical forms
  agree; no code unit from 128 on canonicalises to an ASCII one, so against the ASCII
  literals of the source this is equality up to the case of ASCII letters. The classes
  \<open>\w\<close>, \<open>\d\<close>, \<open>\s\<close> are closed under it.
\<close>

datatype cls = Digit | Word | Space | Upper | Lower | Newline | OneOf jstring

fun inCls :: "cls \<Rightarrow> unit16 \<Rightarrow> bool" where
  "inCls Digit c = isDigit c"
| "inCls Word c = isWord c"
| "inCls Space c = isSpace c"
| "inCls Upper c = isUpperAscii c"
| "inCls Lower c = isLowerAscii c"
| "inCls Newline c = (c = 10)"
| "inCls (OneOf cs) c = (c \<in> set cs)"

datatype rx =
    Str jstring
  | Cls cls
  | Seq rx rx
  | Alt rx rx
  | Opt rx
  | Plus cls
  | Bnd
  | Bol
  | Behind cls
  | Grp rx

definition canon :: "unit16 \<Rightarrow> unit16" where
  "canon c = (if isLowerAscii c then c - 32 else c)"

definition unitEq :: "bool \<Rightarrow> unit16 \<Rightarrow> unit16 \<Rightarrow> bool" where
  "unitEq ic a b = (if ic then canon a = canon b else a = b)"

type_synonym cursor = "jstring \<times> jstring"

type_synonym mstate = "cursor \<times> jstring option"

fun eat :: "bool \<Rightarrow> jstring \<Rightarrow> cursor \<Rightarrow> cursor option" where
  \<comment> \<open>a literal: the cursor after it\<close>
  "eat ic [] cur = Some cur"
| "eat ic (x # w) (l, []) = None"
| "eat ic (x # w) (l, c # r) = (if unitEq ic c x then eat ic w (c # l, r) else None)"

fun spans :: "cls \<Rightarrow> cursor \<Rightarrow> cursor list \<Rightarrow> cursor list" where
  \<comment> \<open>the cursors after one or more members of the class, the farthest first\<close>
  "spans k (l, []) acc = acc"
| "spans k (l, c # r) acc =
     (if inCls k c then spans k (c # l, r) ((c # l, r) # acc) else acc)"

definition wordNext :: "jstring \<Rightarrow> bool" where
  \<comment> \<open>whether the text, read away from the cursor, starts with a word character\<close>
  "wordNext t = (case t of [] \<Rightarrow> False | c # _ \<Rightarrow> isWord c)"

definition between :: "jstring \<Rightarrow> jstring \<Rightarrow> jstring" where
  \<comment> \<open>the text between a cursor with left part \<open>l\<close> and a later one with left part \<open>l'\<close>\<close>
  "between l l' = rev (take (length l' - length l) l')"

fun rmatch :: "bool \<Rightarrow> rx \<Rightarrow> mstate \<Rightarrow> mstate list" where
  "rmatch ic (Str w) (cur, g) = (case eat ic w cur of None \<Rightarrow> [] | Some cur' \<Rightarrow> [(cur', g)])"
| "rmatch ic (Cls k) ((l, r), g) =
     (case r of [] \<Rightarrow> [] | c # r' \<Rightarrow> if inCls k c then [((c # l, r'), g)] else [])"
| "rmatch ic (Seq a b) st = concat (map (rmatch ic b) (rmatch ic a st))"
| "rmatch ic (Alt a b) st = rmatch ic a st @ rmatch ic b st"
| "rmatch ic (Opt a) st = rmatch ic a st @ [st]"
| "rmatch ic (Plus k) (cur, g) = map (\<lambda>c. (c, g)) (spans k cur [])"
| "rmatch ic Bnd ((l, r), g) = (if wordNext l \<noteq> wordNext r then [((l, r), g)] else [])"
| "rmatch ic Bol ((l, r), g) = (if l = [] then [((l, r), g)] else [])"
| "rmatch ic (Behind k) ((l, r), g) =
     (case l of [] \<Rightarrow> [] | c # _ \<Rightarrow> if inCls k c then [((l, r), g)] else [])"
| "rmatch ic (Grp a) ((l, r), g) =
     map (\<lambda>((l', r'), h). ((l', r'), Some (between l l'))) (rmatch ic a ((l, r), g))"

definition matchAt :: "bool \<Rightarrow> rx \<Rightarrow> cursor \<Rightarrow> mstate option" where
  \<comment> \<open>the match that starts at the cursor, if any: its end and group 1\<close>
  "matchAt ic r cur = (case rmatch ic r (cur, None) of [] \<Rightarrow> None | st # _ \<Rightarrow> Some st)"

fun search :: "bool \<Rightarrow> rx \<Rightarrow> jstring \<Rightarrow> jstring \<Rightarrow> (jstring \<times> mstate) option" where
  "search ic r l [] = (case matchAt ic r (l, []) of None \<Rightarrow> None | Some st \<Rightarrow> Some (l, st))"
| "search ic r l (c # cs) =
     (case matchAt ic r (l, c # cs) of None \<Rightarrow> search ic r (c # l) cs | Some st \<Rightarrow> Some (l, st))"

definition exec :: "bool \<Rightarrow> rx \<Rightarrow> jstring \<Rightarrow> (jstring \<times> mstate) option" where
  \<comment> \<open>\<open>r.exec(s)\<close> without the \<open>g\<close> flag: the leftmost match, tried from every position;
      the result is the reversed text before the match and the end state\<close>
  "exec ic r s = search ic r [] s"

definition test :: "bool \<Rightarrow> rx \<Rightarrow> jstring \<Rightarrow> bool" where
  "test ic r s \<longleftrightarrow> exec ic r s \<noteq> None"

definition group1 :: "bool \<Rightarrow> rx \<Rightarrow> jstring \<Rightarrow> jstring option" where
  \<comment> \<open>\<open>s.match(r)?.[1]\<close>\<close>
  "group1 ic r s = (case exec ic r s of Some (l, (cur, Some t)) \<Rightarrow> Some t | _ \<Rightarrow> None)"

definition replaceFirst :: "bool \<Rightarrow> rx \<Rightarrow> (jstring \<Rightarrow> jstring) \<Rightarrow> jstring \<Rightarrow> jstring" where
  \<comment> \<open>\<open>s.replace(r, f)\<close> without the \<open>g\<close> flag; \<open>f\<close> receives the matched text\<close>
  "replaceFirst ic r f s =
     (case exec ic r s of
        None \<Rightarrow> s
      | Some (l, ((l', rest), g)) \<Rightarrow> rev l @ f (between l l') @ rest)"

subsection \<open>A match never moves the cursor backwards\<close>

lemma eat_length: "eat ic w (l, r) = Some (l', r') \<Longrightarrow> length r' \<le> length r"
proof (induction w arbitrary: l r)
  case (Cons x w)
  then show ?case
    by (cases r) (auto split: if_splits dest: le_SucI)
qed simp

lemma spans_length:
  "(l', r') \<in> set (spans k (l, r) acc) \<Longrightarrow> (l', r') \<in> set acc \<or> length r' \<le> length r"
proof (induction r arbitrary: l acc)
  case (Cons c r)
  then show ?case by (fastforce split: if_splits)
qed simp

lemma rmatch_length:
  "((l', r'), h) \<in> set (rmatch ic r ((l, r0), g)) \<Longrightarrow> length r' \<le> length r0"
proof (induction r arbitrary: l r0 g l' r' h)
  case (Str w)
  then show ?case by (auto split: option.splits dest: eat_length [OF sym])
next
  case (Cls k)
  then show ?case by (auto split: list.splits if_splits)
next
  case (Seq a b)
  then obtain m n k where "((m, n), k) \<in> set (rmatch ic a ((l, r0), g))"
    and "((l', r'), h) \<in> set (rmatch ic b ((m, n), k))"
    by auto
  with Seq.IH show ?case by (meson le_trans)
next
  case (Plus k)
  then show ?case by (auto dest: spans_length)
next
  case (Behind k)
  then show ?case by (auto split: list.splits if_splits)
qed (auto split: if_splits)

lemma matchAt_length: "matchAt ic r (l, r0) = Some ((l', r'), h) \<Longrightarrow> length r' \<le> length r0"
  unfolding matchAt_def using rmatch_length [of l' r' h ic r l r0 None]
  by (auto split: list.splits)

subsection \<open>Splitting and global replacement\<close>

text \<open>
  \<open>splitLoop\<close> is the loop of \<open>RegExp.prototype[Symbol.split]\<close>: \<open>q\<close> is the cursor,
  \<open>piece\<close> the reversed text between \<open>p\<close> and \<open>q\<close>. A match at \<open>q\<close> that ends at \<open>p\<close>
  (an empty match at \<open>q = p\<close>) is skipped; any other match closes the piece.
\<close>

function splitLoop :: "bool \<Rightarrow> rx \<Rightarrow> jstring \<Rightarrow> jstring \<Rightarrow> jstring \<Rightarrow> jstring list" where
  "splitLoop ic r piece l rest =
     (case rest of
        [] \<Rightarrow> [rev piece]
      | c # cs \<Rightarrow>
          (case matchAt ic r (l, rest) of
             None \<Rightarrow> splitLoop ic r (c # piece) (c # l) cs
           | Some ((l', rest'), g) \<Rightarrow>
               if length rest' = length rest \<and> piece = []
               then splitLoop ic r (c # piece) (c # l) cs
               else rev piece # splitLoop ic r [] l' rest'))"
  by pat_completeness auto
termination
proof (relation
    "measure (\<lambda>(ic, r, piece, l, rest). 2 * length rest + (if piece = [] then 0 else 1))",
    goal_cases)
  case (4 ic r piece l rest c cs st cur g l' rest')
  from matchAt_length [of ic r l rest l' rest' g] 4 have "length rest' \<le> length rest"
    by simp
  with 4 show ?case by (auto split: if_splits)
qed auto

declare splitLoop.simps [simp del]

definition split :: "bool \<Rightarrow> rx \<Rightarrow> jstring \<Rightarrow> jstring list" where
  \<comment> \<open>\<open>s.split(r)\<close> for a pattern without capture groups\<close>
  "split ic r s =
     (if s = [] then (if matchAt ic r ([], []) = None then [s] else [])
      else splitLoop ic r [] [] s)"

text \<open>
  Global replacement with a constant: every match, found from left to right, gives way
  to the replacement; after an empty match the search resumes one code unit further.
\<close>

function replaceLoop :: "bool \<Rightarrow> rx \<Rightarrow> jstring \<Rightarrow> jstring \<Rightarrow> jstring \<Rightarrow> jstring" where
  "replaceLoop ic r rep l rest =
     (case matchAt ic r (l, rest) of
        None \<Rightarrow> (case rest of [] \<Rightarrow> [] | c # cs \<Rightarrow> c # replaceLoop ic r rep (c # l) cs)
      | Some ((l', rest'), g) \<Rightarrow>
          rep @
          (if length rest' = length rest
           then (case rest of [] \<Rightarrow> [] | c # cs \<Rightarrow> c # replaceLoop ic r rep (c # l) cs)
           else replaceLoop ic r rep l' rest'))"
  by pat_completeness auto
termination
proof (relation "measure (\<lambda>(ic, r, rep, l, rest). length rest)", goal_cases)
  case (4 ic r rep l rest st cur g l' rest')
  from matchAt_length [of ic r l rest l' rest' g] 4 have "length rest' \<le> length rest"
    by simp
  with 4 show ?case by auto
qed auto

declare replaceLoop.simps [simp del]

definition replaceAll :: "bool \<Rightarrow> rx \<Rightarrow> jstring \<Rightarrow> jstring \<Rightarrow> jstring" where
  \<comment> \<open>\<open>s.replace(r, rep)\<close> with the \<open>g\<close> flag and a constant replacement\<close>
  "replaceAll ic r rep s = replaceLoop ic r rep [] s"

section \<open>Data model of the route handler\<close>

datatype Tone = professional | friendly | concise | assertive | warm

datatype Sentiment = positive | neutral | negative

datatype Priority = low | medium | high

record Task =
  description :: jstring
  due :: "jstring option"
  owner :: "jstring option"

record Reply =
  subject :: jstring
  body :: jstring

record AnalyzePayload =
  summary :: jstring
  sentiment :: Sentiment
  priority :: Priority
  tags :: "jstring list"
  subjectSuggestion :: jstring
  tasks :: "Task list"
  followUpRecommendation :: jstring
  recommendedReply :: Reply

text \<open>
  The fields \<open>subject\<close> and \<open>body\<close> of \<open>ComposePayload\<close> are \<open>draftSubject\<close> and
  \<open>draftBody\<close> here, and the fields of a template carry the prefix \<open>template\<close>: a
  field name stands for one record only, and \<open>opening\<close> is a reserved word.
\<close>

record ComposePayload =
  draftSubject :: jstring
  preview :: jstring
  draftBody :: jstring
  cadenceTip :: jstring

record Template =
  templateSubject :: jstring
  templateOpening :: jstring
  templateClosing :: jstring

text \<open>
  The request payload is the parsed JSON object. The handler reads \<open>mode\<close> and then only
  the fields of the request type that the mode selects (\<open>AnalyzeRequest\<close>:
  \<open>content\<close>, \<open>threadHistory?\<close>, \<open>persona?\<close>; \<open>ComposeRequest\<close>: the other six);
  an optional field that is absent is \<open>None\<close>.
\<close>

record Payload =
  mode :: jstring
  content :: jstring
  threadHistory :: "jstring option"
  persona :: "jstring option"
  audience :: jstring
  objective :: jstring
  tone :: Tone
  keyPoints :: "jstring list"
  callToAction :: "jstring option"
  signature :: "jstring option"

text \<open>
  A response is its body before \<open>JSON.stringify\<close> and its status: an object with the
  single field \<open>error\<close>, or one of the two result payloads.
\<close>

datatype ResponseBody =
    ErrorBody jstring
  | AnalysisBody AnalyzePayload
  | DraftBody ComposePayload

record Response =
  responseBody :: ResponseBody
  status :: nat

section \<open>Constants\<close>

definition POSITIVE_WORDS :: "jstring list" where
  "POSITIVE_WORDS =
     [js ''thank'', js ''appreciate'', js ''great'', js ''glad'', js ''pleased'', js ''happy'',
      js ''excited'']"

definition NEGATIVE_WORDS :: "jstring list" where
  "NEGATIVE_WORDS =
     [js ''concern'', js ''issue'', js ''problem'', js ''delayed'', js ''delay'', js ''blocked'',
      js ''urgent'', js ''frustrated'', js ''disappointed'']"

definition URGENCY_WORDS :: "jstring list" where
  "URGENCY_WORDS =
     [js ''urgent'', js ''asap'', js ''immediately'', js ''priority'', js ''important'']"

fun FOLLOW_UP_TEMPLATES :: "Tone \<Rightarrow> Template" where
  "FOLLOW_UP_TEMPLATES professional =
     \<lparr>templateSubject = js ''Quick follow-up on your message'',
      templateOpening = js ''Thank you for reaching out. I wanted to follow up on your note.'',
      templateClosing =
        js ''Let me know if you need anything else in the meantime and I'll happily assist.''\<rparr>"
| "FOLLOW_UP_TEMPLATES friendly =
     \<lparr>templateSubject = js ''Thanks for the update!'',
      templateOpening = js ''Thanks a bunch for the message. I wanted to keep the momentum going.'',
      templateClosing = js ''Looking forward to hearing back when you have a moment.''\<rparr>"
| "FOLLOW_UP_TEMPLATES concise =
     \<lparr>templateSubject = js ''Following up'',
      templateOpening = js ''Appreciate the note. Here's what we'll do next:'',
      templateClosing = js ''Ping me if priorities change.''\<rparr>"
| "FOLLOW_UP_TEMPLATES assertive =
     \<lparr>templateSubject = js ''Action needed'',
      templateOpening =
        js ''Thanks for the details. To keep us on schedule we need to tackle the following:'',
      templateClosing =
        js ''Please confirm the action items so we can close the loop without delay.''\<rparr>"
| "FOLLOW_UP_TEMPLATES warm =
     \<lparr>templateSubject = js ''Appreciate the note'',
      templateOpening =
        js ''Thank you so much for your thoughtful message. Here's how I'll move things forward:'',
      templateClosing =
        js ''Let me know how it all lands'' @ [emdash] @
        js ''always glad to support where I can.''\<rparr>"

section \<open>The patterns of the source\<close>

fun seqs :: "rx list \<Rightarrow> rx" where
  "seqs [] = Str []"
| "seqs [r] = r"
| "seqs (r # rs) = Seq r (seqs rs)"

fun alts :: "rx list \<Rightarrow> rx" where
  "alts [] = Str []"
| "alts [r] = r"
| "alts (r # rs) = Alt r (alts rs)"

definition lit :: "string \<Rightarrow> rx" where
  "lit w = Str (js w)"

definition digits12 :: rx where
  \<comment> \<open>\<open>\d{1,2}\<close>\<close>
  "digits12 = Seq (Cls Digit) (Opt (Cls Digit))"

definition dateTokenRx :: rx where
  \<comment> \<open>\<open>/\b\d{1,2}\/\d{1,2}\b/\<close>\<close>
  "dateTokenRx = seqs [Bnd, digits12, lit ''/'', digits12, Bnd]"

definition soonRx :: rx where
  \<comment> \<open>\<open>/\b(next week|soon|follow up)\b/\<close>\<close>
  "soonRx = seqs [Bnd, alts [lit ''next week'', lit ''soon'', lit ''follow up''], Bnd]"

definition lineBreakRx :: rx where
  \<comment> \<open>\<open>/\r?\n/\<close>\<close>
  "lineBreakRx = Seq (Opt (Str [13])) (Str [10])"

definition bulletRx :: rx where
  \<comment> \<open>\<open>/^(\*|-|\d+\.)/\<close>\<close>
  "bulletRx = seqs [Bol, alts [lit ''*'', lit ''-'', Seq (Plus Digit) (lit ''.'')]]"

definition requestRx :: rx where
  \<comment> \<open>\<open>/(please|can you|could you|action)/i\<close>\<close>
  "requestRx = alts [lit ''please'', lit ''can you'', lit ''could you'', lit ''action'']"

definition bulletPrefixRx :: rx where
  \<comment> \<open>\<open>/^(\*|-|\d+\.)\s*/\<close>\<close>
  "bulletPrefixRx =
     seqs [Bol, alts [lit ''*'', lit ''-'', Seq (Plus Digit) (lit ''.'')], Opt (Plus Space)]"

definition dueByRx :: rx where
  \<comment> \<open>\<open>/\bby\s+((?:next\s+week|tomorrow|today|\d{1,2}\/\d{1,2}|\w+\s+\d{1,2}))/i\<close>\<close>
  "dueByRx =
     seqs [Bnd, lit ''by'', Plus Space,
       Grp (alts [seqs [lit ''next'', Plus Space, lit ''week''], lit ''tomorrow'', lit ''today'',
                  seqs [digits12, lit ''/'', digits12],
                  seqs [Plus Word, Plus Space, digits12]])]"

definition dueRx :: rx where
  \<comment> \<open>\<open>/\b(?:due|deadline)\s+(\w+\s+\d{1,2})/i\<close>\<close>
  "dueRx =
     seqs [Bnd, alts [lit ''due'', lit ''deadline''], Plus Space,
       Grp (seqs [Plus Word, Plus Space, digits12])]"

definition ownerRx :: rx where
  \<comment> \<open>\<open>/\bfor\s+([A-Z][a-z]+)/\<close>\<close>
  "ownerRx = seqs [Bnd, lit ''for'', Plus Space, Grp (Seq (Cls Upper) (Plus Lower))]"

definition sentenceGapRx :: rx where
  \<comment> \<open>\<open>/(?<=[.?!])\s+/\<close>\<close>
  "sentenceGapRx = Seq (Behind (OneOf (js ''.?!''))) (Plus Space)"

definition waitingRx :: rx where
  \<comment> \<open>\<open>/\b(wait|await|response|hear back)\b/i\<close>\<close>
  "waitingRx =
     seqs [Bnd, alts [lit ''wait'', lit ''await'', lit ''response'', lit ''hear back''], Bnd]"

definition thanksRx :: rx where
  \<comment> \<open>\<open>/^(Thank you|Thanks)/\<close>\<close>
  "thanksRx = Seq Bol (alts [lit ''Thank you'', lit ''Thanks''])"


section \<open>The heuristics\<close>

definition capitalize :: "Runtime \<Rightarrow> jstring \<Rightarrow> jstring" where
  "capitalize rt v = (case v of [] \<Rightarrow> [] | c # cs \<Rightarrow> toUpperCase rt [c] @ cs)"

definition titleCase :: "Runtime \<Rightarrow> jstring \<Rightarrow> jstring" where
  "titleCase rt v = join (js '' '') (map (capitalize rt) (split False (Plus Space) (toLowerCase rt v)))"

definition hits :: "jstring list \<Rightarrow> jstring \<Rightarrow> nat" where
  \<comment> \<open>\<open>WORDS.filter((word) => normalized.includes(word)).length\<close>\<close>
  "hits ws normalized = length (filter (\<lambda>word. jsIncludes normalized word) ws)"

definition detectSentiment :: "Runtime \<Rightarrow> jstring \<Rightarrow> Sentiment" where
  "detectSentiment rt c =
     (let normalized = toLowerCase rt c;
          positiveHits = hits POSITIVE_WORDS normalized;
          negativeHits = hits NEGATIVE_WORDS normalized
      in if positiveHits = negativeHits then neutral
         else if positiveHits > negativeHits then positive else negative)"

definition determinePriority :: "Runtime \<Rightarrow> jstring \<Rightarrow> Priority" where
  "determinePriority rt c =
     (let normalized = toLowerCase rt c
      in if list_ex (\<lambda>word. jsIncludes normalized word) URGENCY_WORDS then high
         else if test False dateTokenRx normalized then medium
         else if test False soonRx normalized then medium
         else low)"

text \<open>
  The two arrow functions of \<open>extractTasks\<close> have names here: \<open>isTaskLine\<close> is the
  predicate of its \<open>filter\<close> over the lines and \<open>taskOfLine\<close> the function of its
  \<open>map\<close>.
\<close>

definition isTaskLine :: "jstring \<Rightarrow> bool" where
  "isTaskLine line \<longleftrightarrow> test False bulletRx (trim line) \<or> test True requestRx line"

definition taskOfLine :: "Runtime \<Rightarrow> jstring \<Rightarrow> Task" where
  "taskOfLine rt line =
     (let descr = trim (replaceFirst False bulletPrefixRx (\<lambda>m. []) line);
          dueMatch = (case group1 True dueByRx descr of
                        Some d \<Rightarrow> Some d
                      | None \<Rightarrow> group1 True dueRx line);
          ownerMatch = group1 False ownerRx descr
      in \<lparr>description = capitalize rt descr,
          due = (case dueMatch of
                   None \<Rightarrow> None
                 | Some d \<Rightarrow> if truthy d then Some (titleCase rt d) else None),
          owner = ownerMatch\<rparr>)"

definition extractTasks :: "Runtime \<Rightarrow> jstring \<Rightarrow> Task list" where
  "extractTasks rt c =
     (let lines = split False lineBreakRx c;
          taskLines = filter isTaskLine lines
      in filter (\<lambda>task. truthy (description task)) (map (taskOfLine rt) taskLines))"

definition buildSubject :: "Task list \<Rightarrow> Priority \<Rightarrow> Sentiment \<Rightarrow> jstring" where
  "buildSubject ts p sn =
     (let leadTask = (case ts of [] \<Rightarrow> [] | t # _ \<Rightarrow> description t);
          tag = (if p = high then js ''Urgent''
                 else if sn = positive then js ''Update'' else js ''Follow-up'')
      in if truthy leadTask then js ''['' @ tag @ js ''] '' @ leadTask
         else (case p of
                 high \<Rightarrow> js ''[Urgent] Action required on latest request''
               | medium \<Rightarrow> js ''Next steps for your email''
               | low \<Rightarrow> js ''Thanks for the update '' @ [emdash] @ js '' here's the plan''))"

definition sentences :: "jstring \<Rightarrow> jstring list" where
  "sentences c =
     filter truthy (split False sentenceGapRx (replaceAll False (Plus Newline) (js '' '') c))"

definition historyNote :: "jstring option \<Rightarrow> jstring" where
  "historyNote th =
     (case th of
        None \<Rightarrow> []
      | Some h \<Rightarrow>
          if truthy h
          then js '' Thread context considered ('' @
               showNat (length (split False (Plus Space) h)) @ js '' words).''
          else [])"

definition summarize :: "jstring \<Rightarrow> jstring option \<Rightarrow> jstring" where
  "summarize c th =
     (let smry = join (js '' '') (take 3 (sentences c))
      in if truthy smry then smry else js ''No summary available.'' @ historyNote th)"

definition setAdd :: "jstring list \<Rightarrow> jstring \<Rightarrow> jstring list" where
  \<comment> \<open>\<open>Set.add\<close>: a set iterates in insertion order, and adding a member changes nothing\<close>
  "setAdd xs x = (if x \<in> set xs then xs else xs @ [x])"

definition buildTags :: "Priority \<Rightarrow> Sentiment \<Rightarrow> Task list \<Rightarrow> jstring list" where
  "buildTags p sn ts =
     (let t0 = [];
          t1 = setAdd t0 (if p = high then js ''Hot''
                          else if p = medium then js ''Follow-up'' else js ''Backlog'');
          t2 = setAdd t1 (if sn = positive then js ''Relationship''
                          else if sn = negative then js ''Risk'' else js ''Neutral'');
          t3 = (if length ts > 0 then setAdd t2 (js ''Action items'') else t2);
          t4 = (if list_ex (\<lambda>task. truthyOpt (owner task)) ts
                then setAdd t3 (js ''Delegation'') else t3)
      in t4)"

definition buildFollowUpRecommendation :: "Priority \<Rightarrow> Task list \<Rightarrow> jstring \<Rightarrow> jstring" where
  "buildFollowUpRecommendation p ts c =
     (let waitingForResponse = test True waitingRx c;
          hasTasks = (length ts > 0)
      in if p = high
         then js ''Follow up within 4 business hours and confirm ownership of each task.''
         else if waitingForResponse
         then js ''Schedule a reminder in 2 days to check for updates.''
         else if hasTasks
         then js ''Log tasks in your system and share a progress update within 24 hours.''
         else js ''Archive for now, revisit over the weekend for any broader updates.'')"

definition taskBullet :: "Task \<Rightarrow> jstring" where
  "taskBullet task =
     (let d = (case due task of
                 None \<Rightarrow> []
               | Some v \<Rightarrow> if truthy v then js '' (due '' @ v @ js '')'' else []);
          ow = (case owner task of
                  None \<Rightarrow> []
                | Some v \<Rightarrow> if truthy v then js '' '' @ [emdash] @ js '' owner: '' @ v else [])
      in [bullet] @ js '' '' @ description task @ d @ ow)"

definition generateReply :: "Tone \<Rightarrow> Task list \<Rightarrow> jstring \<Rightarrow> jstring option \<Rightarrow> Reply" where
  "generateReply tn ts smry prs =
     (let template = FOLLOW_UP_TEMPLATES tn;
          intro = (case prs of
                     None \<Rightarrow> templateOpening template
                   | Some nm \<Rightarrow>
                       if truthy nm
                       then replaceFirst False thanksRx
                              (\<lambda>m. if m = js ''Thanks''
                                   then js ''Hi '' @ nm @ js '', thanks''
                                   else js ''Hi '' @ nm @ js '', thank you'')
                              (templateOpening template)
                       else templateOpening template);
          bulletSection =
            (if length ts > 0
             then js ''\<newline>\<newline>Here's what I'm tracking:\<newline>'' @
                  join (js ''\<newline>'') (map taskBullet ts)
             else [])
      in \<lparr>subject = templateSubject template,
          body = intro @ js ''\<newline>\<newline>'' @ smry @ bulletSection @ js ''\<newline>\<newline>'' @
                 templateClosing template @ js ''\<newline>\<newline>Best,\<newline>Your Email Agent''\<rparr>)"

definition analyzeEmail :: "Runtime \<Rightarrow> jstring \<Rightarrow> jstring option \<Rightarrow> jstring option \<Rightarrow> AnalyzePayload" where
  "analyzeEmail rt c th prs =
     (let sn = detectSentiment rt c;
          p = determinePriority rt c;
          ts = extractTasks rt c;
          sbj = buildSubject ts p sn;
          smry = summarize c th;
          tgs = buildTags p sn ts;
          fu = buildFollowUpRecommendation p ts c;
          tn = (if p = high then assertive else professional);
          reply = generateReply tn ts smry prs
      in \<lparr>summary = smry, sentiment = sn, priority = p, tags = tgs, subjectSuggestion = sbj,
          tasks = ts, followUpRecommendation = fu, recommendedReply = reply\<rparr>)"


section \<open>Composing an outbound draft\<close>

definition craftSubjectFromObjective :: "Runtime \<Rightarrow> jstring \<Rightarrow> jstring \<Rightarrow> jstring" where
  "craftSubjectFromObjective rt obj fallback =
     (if \<not> truthy obj then fallback
      else let normalized = toLowerCase rt obj
           in if jsIncludes normalized (js ''update'') then js ''Quick project update''
              else if jsIncludes normalized (js ''intro'') then js ''Introduction and next steps''
              else if jsIncludes normalized (js ''meeting'')
              then js ''Proposed agenda for our meeting''
              else if jsIncludes normalized (js ''feedback'')
              then js ''Feedback and proposed improvements''
              else capitalize rt obj)"

definition craftOpening :: "jstring \<Rightarrow> jstring \<Rightarrow> Tone \<Rightarrow> jstring" where
  "craftOpening tOpening aud tn =
     (let recipient = trim aud
      in if \<not> truthy recipient then tOpening
         else let greeting = (if tn = friendly \<or> tn = warm then js ''Hi'' else js ''Hello'');
                  softenedOpening =
                    replaceFirst False (Seq Bol (lit ''Thanks'')) (\<lambda>m. js ''thanks'')
                      (replaceFirst False (Seq Bol (lit ''Thank you'')) (\<lambda>m. js ''thank you'')
                         tOpening)
              in greeting @ js '' '' @ recipient @ js '', '' @ softenedOpening)"

definition buildPreview :: "jstring \<Rightarrow> jstring" where
  "buildPreview b =
     (let condensed = trim (replaceAll False (Plus Space) (js '' '') b)
      in slice condensed 0 140 @ (if length condensed > 140 then js ''...'' else []))"

definition buildCadenceTip :: "Tone \<Rightarrow> jstring list \<Rightarrow> jstring" where
  "buildCadenceTip tn cleanPoints =
     (let base =
            (if tn = assertive
             then js ''Set a reminder to nudge the recipient within 1 business day.''
             else if tn = concise
             then js ''Share a short recap if you do not hear back within 2 days.''
             else js ''Send a friendly check-in if there's no response within 3 days.'')
      in if length cleanPoints > 2
         then base @ js '' Consider bolding the key decisions to make scanning easier.''
         else base)"

definition composeEmail ::
  "Runtime \<Rightarrow> jstring \<Rightarrow> jstring \<Rightarrow> Tone \<Rightarrow> jstring list \<Rightarrow> jstring option \<Rightarrow> jstring option \<Rightarrow> ComposePayload"
where
  "composeEmail rt aud obj tn kps cta sig =
     (let cleanPoints =
            map (\<lambda>point. if startsWith point (js ''-'') then trim (drop 1 point) else point)
              (filter truthy (map trim kps));
          toneTemplate = FOLLOW_UP_TEMPLATES tn;
          sbj = craftSubjectFromObjective rt obj (templateSubject toneTemplate);
          opn = craftOpening (templateOpening toneTemplate) aud tn;
          bodyPoints =
            (if length cleanPoints > 0
             then join (js ''\<newline>'')
                    (map (\<lambda>point. [bullet] @ js '' '' @ capitalize rt point) cleanPoints)
             else [bullet] @ js '' Key details are included in the attachments.'');
          callout =
            (case cta of
               None \<Rightarrow> []
             | Some a \<Rightarrow>
                 if truthy a then js ''\<newline>\<newline>Next up: '' @ capitalize rt a @ js ''.'' else []);
          cls = templateClosing toneTemplate;
          signoff =
            (case sig of
               Some g \<Rightarrow> g
             | None \<Rightarrow>
                 if tn = friendly \<or> tn = warm then js ''All the best,\<newline>Your Email Agent''
                 else js ''Best regards,\<newline>Your Email Agent'');
          bdy = opn @ js ''\<newline>\<newline>'' @
                (if truthy obj then js ''Objective: '' @ capitalize rt obj @ js ''\<newline>\<newline>'' else []) @
                bodyPoints @ callout @ js ''\<newline>\<newline>'' @ cls @ js ''\<newline>\<newline>'' @ signoff
      in \<lparr>draftSubject = sbj, preview = buildPreview bdy, draftBody = bdy,
          cadenceTip = buildCadenceTip tn cleanPoints\<rparr>)"

section \<open>The request handler\<close>

definition POST :: "Runtime \<Rightarrow> Payload \<Rightarrow> Response" where
  "POST rt payload =
     (if mode payload = js ''analyze''
      then let c = trim (content payload)
           in if \<not> truthy c
              then \<lparr>responseBody = ErrorBody (js ''Email content is required.''), status = 400\<rparr>
              else \<lparr>responseBody =
                      AnalysisBody (analyzeEmail rt c (threadHistory payload) (persona payload)),
                    status = 200\<rparr>
      else if mode payload = js ''compose''
      then \<lparr>responseBody =
               DraftBody
                 (composeEmail rt (trim (audience payload)) (trim (objective payload)) (tone payload)
                    (keyPoints payload) (map_option trim (callToAction payload))
                    (map_option trim (signature payload))),
             status = 200\<rparr>
      else \<lparr>responseBody = ErrorBody (js ''Unsupported mode.''), status = 400\<rparr>)"


section \<open>Notions used to state the properties\<close>

text \<open>
  The case maps on ASCII: every runtime computes them on a string of ASCII code units.
  \<open>asciiRuntime\<close> is the runtime parameter at which the functions are evaluated on
  ASCII inputs; it is not a model of the case maps on other strings.
\<close>

definition asciiLower :: "unit16 \<Rightarrow> unit16" where
  "asciiLower c = (if isUpperAscii c then c + 32 else c)"

definition asciiUpper :: "unit16 \<Rightarrow> unit16" where
  "asciiUpper c = (if isLowerAscii c then c - 32 else c)"

definition asciiRuntime :: Runtime where
  "asciiRuntime = \<lparr>toLowerCase = map asciiLower, toUpperCase = map asciiUpper\<rparr>"

definition isAscii :: "jstring \<Rightarrow> bool" where
  "isAscii s \<longleftrightarrow> list_all (\<lambda>u. 0 \<le> u \<and> u < 128) s"

text \<open>
  Three facts of the case maps of every ECMAScript runtime, used as hypotheses where a
  property depends on them. Lower-casing maps code points one by one, the ASCII ones to
  their ASCII lower case, and no ASCII code unit is part of a longer code point: an
  ASCII stretch of a string appears lower-cased, in place, in the lower-cased string.
  Upper-casing a string of one code unit never gives the empty string. And on a string
  of ASCII code units both maps are the ASCII ones.
\<close>

definition lowersAsciiInPlace :: "Runtime \<Rightarrow> bool" where
  "lowersAsciiInPlace rt \<longleftrightarrow>
     (\<forall>pre v suf. isAscii v \<longrightarrow>
        (\<exists>x y. toLowerCase rt (pre @ v @ suf) = x @ map asciiLower v @ y))"

definition upperKeepsUnit :: "Runtime \<Rightarrow> bool" where
  "upperKeepsUnit rt \<longleftrightarrow> (\<forall>u. toUpperCase rt [u] \<noteq> [])"

definition exactOnAscii :: "Runtime \<Rightarrow> bool" where
  "exactOnAscii rt \<longleftrightarrow>
     (\<forall>s. isAscii s \<longrightarrow>
        toLowerCase rt s = map asciiLower s \<and> toUpperCase rt s = map asciiUpper s)"

definition occurs :: "jstring \<Rightarrow> jstring \<Rightarrow> bool" where
  \<comment> \<open>\<open>w\<close> is a substring of \<open>s\<close>\<close>
  "occurs w s \<longleftrightarrow> (\<exists>pre suf. s = pre @ w @ suf)"

text \<open>
  What a pattern matches, stated without the matcher: \<open>reaches ic r x z\<close> holds when the
  pattern \<open>r\<close> can take the cursor \<open>x\<close> to the cursor \<open>z\<close>.
\<close>

primrec reaches :: "bool \<Rightarrow> rx \<Rightarrow> cursor \<Rightarrow> cursor \<Rightarrow> bool" where
  "reaches ic (Str w) x z \<longleftrightarrow>
     (\<exists>t. list_all2 (unitEq ic) t w \<and> snd x = t @ snd z \<and> fst z = rev t @ fst x)"
| "reaches ic (Cls k) x z \<longleftrightarrow> (\<exists>c. inCls k c \<and> snd x = c # snd z \<and> fst z = c # fst x)"
| "reaches ic (Seq a b) x z \<longleftrightarrow> (\<exists>y. reaches ic a x y \<and> reaches ic b y z)"
| "reaches ic (Alt a b) x z \<longleftrightarrow> reaches ic a x z \<or> reaches ic b x z"
| "reaches ic (Opt a) x z \<longleftrightarrow> reaches ic a x z \<or> z = x"
| "reaches ic (Plus k) x z \<longleftrightarrow>
     (\<exists>t. t \<noteq> [] \<and> list_all (inCls k) t \<and> snd x = t @ snd z \<and> fst z = rev t @ fst x)"
| "reaches ic Bnd x z \<longleftrightarrow> z = x \<and> wordNext (fst x) \<noteq> wordNext (snd x)"
| "reaches ic Bol x z \<longleftrightarrow> z = x \<and> fst x = []"
| "reaches ic (Behind k) x z \<longleftrightarrow> z = x \<and> (\<exists>c t. fst x = c # t \<and> inCls k c)"
| "reaches ic (Grp a) x z \<longleftrightarrow> reaches ic a x z"

text \<open>
  A word boundary lies between two adjacent texts when exactly one of the two code units
  next to the seam is a word character; the start and the end of the subject count as
  non-word. \<open>occursAsWord\<close> is an occurrence between two word boundaries, and
  \<open>hasDateToken\<close> an occurrence, between two word boundaries, of one or two digits, a
  slash, and one or two digits.
\<close>

definition boundary :: "jstring \<Rightarrow> jstring \<Rightarrow> bool" where
  "boundary before after \<longleftrightarrow> wordNext (rev before) \<noteq> wordNext after"

definition occursAsWord :: "jstring \<Rightarrow> jstring \<Rightarrow> bool" where
  "occursAsWord w s \<longleftrightarrow>
     (\<exists>pre suf. s = pre @ w @ suf \<and> boundary pre (w @ suf) \<and> boundary (pre @ w) suf)"

definition isDigits12 :: "jstring \<Rightarrow> bool" where
  "isDigits12 d \<longleftrightarrow> (length d = 1 \<or> length d = 2) \<and> list_all isDigit d"

definition hasDateToken :: "jstring \<Rightarrow> bool" where
  "hasDateToken s \<longleftrightarrow>
     (\<exists>pre d1 d2 suf. s = pre @ d1 @ js ''/'' @ d2 @ suf \<and> isDigits12 d1 \<and> isDigits12 d2 \<and>
        boundary pre (d1 @ js ''/'' @ d2 @ suf) \<and> boundary (pre @ d1 @ js ''/'' @ d2) suf)"

text \<open>
  The priority rules with the third rule read as plain containment, the way the first
  rule is.
\<close>

definition priorityAsStated :: "Runtime \<Rightarrow> jstring \<Rightarrow> Priority" where
  "priorityAsStated rt c =
     (if \<exists>w \<in> {js ''urgent'', js ''asap'', js ''immediately'', js ''priority'', js ''important''}.
           occurs w (toLowerCase rt c) then high
      else if hasDateToken (toLowerCase rt c) then medium
      else if occurs (js ''next week'') (toLowerCase rt c) \<or> occurs (js ''soon'') (toLowerCase rt c) \<or>
              occurs (js ''follow up'') (toLowerCase rt c) then medium
      else low)"

definition isErrorResponse :: "Response \<Rightarrow> bool" where
  \<comment> \<open>the body is the object with the single field \<open>error\<close>\<close>
  "isErrorResponse resp = (case responseBody resp of ErrorBody m \<Rightarrow> True | _ \<Rightarrow> False)"

definition endsWith :: "jstring \<Rightarrow> jstring \<Rightarrow> bool" where
  "endsWith s w \<longleftrightarrow> (\<exists>pre. s = pre @ w)"







subsection \<open>Example inputs\<close>

definition docsRequest :: jstring where
  "docsRequest = js ''Please update the docs by Thursday. Thanks so much, this is urgent!''"

definition helloRequest :: Payload where
  "helloRequest =
     \<lparr>mode = js ''analyze'', content = js '' Hi. Ok '', threadHistory = None, persona = None,
      audience = [], objective = [], tone = professional, keyPoints = [],
      callToAction = None, signature = None\<rparr>"

definition blankRequest :: Payload where
  "blankRequest =
     \<lparr>mode = js ''analyze'', content = js ''  \<newline> '', threadHistory = None, persona = None,
      audience = [], objective = [], tone = professional, keyPoints = [],
      callToAction = None, signature = None\<rparr>"

definition draftRequest :: Payload where
  "draftRequest =
     \<lparr>mode = js ''compose'', content = [], threadHistory = None, persona = None,
      audience = js ''Sam'', objective = js '' '', tone = friendly, keyPoints = [js ''- one''],
      callToAction = None, signature = None\<rparr>"

section \<open>Substrings\<close>

lemma startsWith_iff: "startsWith s w \<longleftrightarrow> (\<exists>suf. s = w @ suf)"
  by (induction s w rule: startsWith.induct) auto

lemma jsIncludes_iff: "jsIncludes s w \<longleftrightarrow> occurs w s"
proof (induction s)
  case Nil
  show ?case by (auto simp: occurs_def)
next
  case (Cons c cs)
  show ?case
  proof
    assume "jsIncludes (c # cs) w"
    then consider "startsWith (c # cs) w" | "jsIncludes cs w" by auto
    then show "occurs w (c # cs)"
    proof cases
      case 1
      then obtain suf where "c # cs = w @ suf" by (auto simp: startsWith_iff)
      then have "c # cs = [] @ w @ suf" by simp
      then show ?thesis unfolding occurs_def by blast
    next
      case 2
      with Cons obtain pre suf where "cs = pre @ w @ suf" by (auto simp: occurs_def)
      then have "c # cs = (c # pre) @ w @ suf" by simp
      then show ?thesis unfolding occurs_def by blast
    qed
  next
    assume "occurs w (c # cs)"
    then obtain pre suf where eq: "c # cs = pre @ w @ suf" by (auto simp: occurs_def)
    show "jsIncludes (c # cs) w"
    proof (cases pre)
      case Nil
      with eq have "startsWith (c # cs) w" by (auto simp: startsWith_iff)
      then show ?thesis by simp
    next
      case (Cons a pre')
      with eq have "cs = pre' @ w @ suf" by simp
      then have "occurs w cs" unfolding occurs_def by blast
      with Cons.IH show ?thesis by simp
    qed
  qed
qed

lemma occurs_code [code]: "occurs w s = jsIncludes s w"
  by (simp add: jsIncludes_iff)

section \<open>Sentiment\<close>

lemma hits_card:
  assumes "distinct ws"
  shows "hits ws s = card {w \<in> set ws. occurs w s}"
proof -
  have "{w \<in> set ws. occurs w s} = {w. occurs w s} \<inter> set ws" by auto
  with assms show ?thesis
    by (simp add: hits_def jsIncludes_iff distinct_length_filter)
qed

lemma distinct_POSITIVE_WORDS: "distinct POSITIVE_WORDS"
  by (simp add: POSITIVE_WORDS_def js_def)

lemma distinct_NEGATIVE_WORDS: "distinct NEGATIVE_WORDS"
  by (simp add: NEGATIVE_WORDS_def js_def)

lemma sentiment_analyzeEmail: "sentiment (analyzeEmail rt c th p) = detectSentiment rt c"
  by (simp add: analyzeEmail_def Let_def)

text \<open>
  C1. The sentiment of an analysis compares two counts: the number of words of the
  positive list, and of the negative list, that are substrings of the lower-cased
  content; a word counts once however often it occurs. The sentiment is positive exactly
  when the positive count is the larger, negative exactly when the negative count is the
  larger, and neutral exactly when the two are equal.
\<close>

theorem sentiment_counts_list_words:
  "(sentiment (analyzeEmail rt c th p) = positive \<longleftrightarrow>
      card {w \<in> {js ''thank'', js ''appreciate'', js ''great'', js ''glad'', js ''pleased'',
                 js ''happy'', js ''excited''}. occurs w (toLowerCase rt c)}
      > card {w \<in> {js ''concern'', js ''issue'', js ''problem'', js ''delayed'', js ''delay'',
                   js ''blocked'', js ''urgent'', js ''frustrated'', js ''disappointed''}.
               occurs w (toLowerCase rt c)}) \<and>
   (sentiment (analyzeEmail rt c th p) = negative \<longleftrightarrow>
      card {w \<in> {js ''concern'', js ''issue'', js ''problem'', js ''delayed'', js ''delay'',
                 js ''blocked'', js ''urgent'', js ''frustrated'', js ''disappointed''}.
             occurs w (toLowerCase rt c)}
      > card {w \<in> {js ''thank'', js ''appreciate'', js ''great'', js ''glad'', js ''pleased'',
                   js ''happy'', js ''excited''}. occurs w (toLowerCase rt c)}) \<and>
   (sentiment (analyzeEmail rt c th p) = neutral \<longleftrightarrow>
      card {w \<in> {js ''thank'', js ''appreciate'', js ''great'', js ''glad'', js ''pleased'',
                 js ''happy'', js ''excited''}. occurs w (toLowerCase rt c)}
      = card {w \<in> {js ''concern'', js ''issue'', js ''problem'', js ''delayed'', js ''delay'',
                   js ''blocked'', js ''urgent'', js ''frustrated'', js ''disappointed''}.
               occurs w (toLowerCase rt c)})"
proof -
  have p: "hits POSITIVE_WORDS (toLowerCase rt c) =
      card {w \<in> {js ''thank'', js ''appreciate'', js ''great'', js ''glad'', js ''pleased'',
                 js ''happy'', js ''excited''}. occurs w (toLowerCase rt c)}"
    unfolding hits_card [OF distinct_POSITIVE_WORDS] by (simp add: POSITIVE_WORDS_def)
  have n: "hits NEGATIVE_WORDS (toLowerCase rt c) =
      card {w \<in> {js ''concern'', js ''issue'', js ''problem'', js ''delayed'', js ''delay'',
                 js ''blocked'', js ''urgent'', js ''frustrated'', js ''disappointed''}.
             occurs w (toLowerCase rt c)}"
    unfolding hits_card [OF distinct_NEGATIVE_WORDS] by (simp add: NEGATIVE_WORDS_def)
  show ?thesis
    unfolding sentiment_analyzeEmail detectSentiment_def Let_def p n by auto
qed

text \<open>
  At the content "Thanks, GREAT news; one issue" two positive words occur and one negative
  word, and the sentiment is positive.
\<close>

theorem sentiment_counts_list_words_witness:
  "card {w \<in> {js ''thank'', js ''appreciate'', js ''great'', js ''glad'', js ''pleased'',
              js ''happy'', js ''excited''}.
          occurs w (toLowerCase asciiRuntime (js ''Thanks, GREAT news; one issue''))} = 2 \<and>
   card {w \<in> {js ''concern'', js ''issue'', js ''problem'', js ''delayed'', js ''delay'',
              js ''blocked'', js ''urgent'', js ''frustrated'', js ''disappointed''}.
          occurs w (toLowerCase asciiRuntime (js ''Thanks, GREAT news; one issue''))} = 1 \<and>
   sentiment (analyzeEmail asciiRuntime (js ''Thanks, GREAT news; one issue'') None None) = positive"
proof -
  have a: "card {w \<in> {js ''thank'', js ''appreciate'', js ''great'', js ''glad'', js ''pleased'',
              js ''happy'', js ''excited''}.
          occurs w (toLowerCase asciiRuntime (js ''Thanks, GREAT news; one issue''))} = 2"
    by code_simp
  have b: "card {w \<in> {js ''concern'', js ''issue'', js ''problem'', js ''delayed'', js ''delay'',
              js ''blocked'', js ''urgent'', js ''frustrated'', js ''disappointed''}.
          occurs w (toLowerCase asciiRuntime (js ''Thanks, GREAT news; one issue''))} = 1"
    by code_simp
  from sentiment_counts_list_words [of asciiRuntime "js ''Thanks, GREAT news; one issue''" None None]
  show ?thesis unfolding a b by simp
qed


section \<open>The fields of an analysis\<close>

lemma priority_analyzeEmail: "priority (analyzeEmail rt c th p) = determinePriority rt c"
  by (simp add: analyzeEmail_def Let_def)

lemma tasks_analyzeEmail: "tasks (analyzeEmail rt c th p) = extractTasks rt c"
  by (simp add: analyzeEmail_def Let_def)

lemma summary_analyzeEmail: "summary (analyzeEmail rt c th p) = summarize c th"
  by (simp add: analyzeEmail_def Let_def)

lemma tags_analyzeEmail:
  "tags (analyzeEmail rt c th p) =
     buildTags (determinePriority rt c) (detectSentiment rt c) (extractTasks rt c)"
  by (simp add: analyzeEmail_def Let_def)

lemma recommendedReply_analyzeEmail:
  "recommendedReply (analyzeEmail rt c th p) =
     generateReply (if determinePriority rt c = high then assertive else professional)
       (extractTasks rt c) (summarize c th) p"
  by (simp add: analyzeEmail_def Let_def)

lemma js_eq_iff: "js a = js b \<longleftrightarrow> a = b"
  by (simp add: js_def inj_map_eq_map inj_on_def)

section \<open>The recommended reply\<close>

lemma subject_generateReply:
  "subject (generateReply tn ts smry prs) = templateSubject (FOLLOW_UP_TEMPLATES tn)"
  by (simp add: generateReply_def Let_def)

text \<open>
  C10. The recommended reply of an analysis is generated in the assertive tone when the
  derived priority is high and in the professional tone otherwise, and its subject is
  the fixed subject of that tone's template: "Action needed" or "Quick follow-up on your
  message", whatever the content.
\<close>

theorem reply_tone_follows_priority:
  "recommendedReply (analyzeEmail rt c th p) =
     generateReply (if priority (analyzeEmail rt c th p) = high then assertive else professional)
       (tasks (analyzeEmail rt c th p)) (summary (analyzeEmail rt c th p)) p \<and>
   subject (recommendedReply (analyzeEmail rt c th p)) =
     (if priority (analyzeEmail rt c th p) = high then js ''Action needed''
      else js ''Quick follow-up on your message'')"
  by (simp add: recommendedReply_analyzeEmail priority_analyzeEmail tasks_analyzeEmail
      summary_analyzeEmail subject_generateReply)

theorem reply_tone_follows_priority_witness:
  "priority (analyzeEmail asciiRuntime (js ''This is urgent'') None None) = high \<and>
   subject (recommendedReply (analyzeEmail asciiRuntime (js ''This is urgent'') None None)) =
     js ''Action needed'' \<and>
   priority (analyzeEmail asciiRuntime (js ''See you'') None None) = low \<and>
   subject (recommendedReply (analyzeEmail asciiRuntime (js ''See you'') None None)) =
     js ''Quick follow-up on your message''"
proof -
  have a: "priority (analyzeEmail asciiRuntime (js ''This is urgent'') None None) = high"
    unfolding priority_analyzeEmail by code_simp
  have b: "priority (analyzeEmail asciiRuntime (js ''See you'') None None) = low"
    unfolding priority_analyzeEmail by code_simp
  have c: "subject (recommendedReply (analyzeEmail asciiRuntime (js ''This is urgent'') None None)) =
      js ''Action needed''"
    using reply_tone_follows_priority [of asciiRuntime "js ''This is urgent''" None None, THEN conjunct2]
    by (simp add: a)
  have d: "subject (recommendedReply (analyzeEmail asciiRuntime (js ''See you'') None None)) =
      js ''Quick follow-up on your message''"
    using reply_tone_follows_priority [of asciiRuntime "js ''See you''" None None, THEN conjunct2]
    by (simp add: b)
  from a b c d show ?thesis by blast
qed

section \<open>Tags\<close>

lemma buildTags_eq:
  "buildTags pr sn ts =
     [case pr of high \<Rightarrow> js ''Hot'' | medium \<Rightarrow> js ''Follow-up'' | low \<Rightarrow> js ''Backlog'',
      case sn of positive \<Rightarrow> js ''Relationship'' | negative \<Rightarrow> js ''Risk''
               | neutral \<Rightarrow> js ''Neutral''] @
     (if ts \<noteq> [] then [js ''Action items''] else []) @
     (if list_ex (\<lambda>task. truthyOpt (owner task)) ts then [js ''Delegation''] else [])"
  by (cases pr; cases sn) (simp_all add: buildTags_def setAdd_def Let_def js_eq_iff)

lemma buildTags_distinct: "distinct (buildTags pr sn ts)"
  unfolding buildTags_eq by (cases pr; cases sn) (simp_all add: js_eq_iff)

lemma buildTags_action: "js ''Action items'' \<in> set (buildTags pr sn ts) \<longleftrightarrow> ts \<noteq> []"
  unfolding buildTags_eq by (cases pr; cases sn) (simp_all add: js_eq_iff)

text \<open>
  C7. The tags of an analysis have no duplicates and stand in insertion order: the
  priority tag, the sentiment tag, then "Action items" when there are tasks, then
  "Delegation" when a task has an owner; and "Action items" is among the tags exactly
  when the task list is not empty.
\<close>

theorem tags_distinct_in_insertion_order:
  "distinct (tags (analyzeEmail rt c th p)) \<and>
   tags (analyzeEmail rt c th p) =
     [case priority (analyzeEmail rt c th p) of
        high \<Rightarrow> js ''Hot'' | medium \<Rightarrow> js ''Follow-up'' | low \<Rightarrow> js ''Backlog'',
      case sentiment (analyzeEmail rt c th p) of
        positive \<Rightarrow> js ''Relationship'' | negative \<Rightarrow> js ''Risk''
      | neutral \<Rightarrow> js ''Neutral''] @
     (if tasks (analyzeEmail rt c th p) \<noteq> [] then [js ''Action items''] else []) @
     (if list_ex (\<lambda>task. truthyOpt (owner task)) (tasks (analyzeEmail rt c th p))
      then [js ''Delegation''] else []) \<and>
   (js ''Action items'' \<in> set (tags (analyzeEmail rt c th p)) \<longleftrightarrow>
      tasks (analyzeEmail rt c th p) \<noteq> [])"
  unfolding tags_analyzeEmail priority_analyzeEmail sentiment_analyzeEmail tasks_analyzeEmail
  using buildTags_eq [of "determinePriority rt c" "detectSentiment rt c" "extractTasks rt c"]
    buildTags_distinct [of "determinePriority rt c" "detectSentiment rt c" "extractTasks rt c"]
    buildTags_action [of "determinePriority rt c" "detectSentiment rt c" "extractTasks rt c"]
  by blast

theorem tags_distinct_in_insertion_order_witness:
  "tags (analyzeEmail asciiRuntime (js ''- ship it for Dana asap'') None None) =
     [js ''Hot'', js ''Neutral'', js ''Action items'', js ''Delegation''] \<and>
   distinct (tags (analyzeEmail asciiRuntime (js ''- ship it for Dana asap'') None None)) \<and>
   tasks (analyzeEmail asciiRuntime (js ''- ship it for Dana asap'') None None) =
     [\<lparr>description = js ''Ship it for Dana asap'', due = None, owner = Some (js ''Dana'')\<rparr>]"
proof -
  have t: "tasks (analyzeEmail asciiRuntime (js ''- ship it for Dana asap'') None None) =
     [\<lparr>description = js ''Ship it for Dana asap'', due = None, owner = Some (js ''Dana'')\<rparr>]"
    unfolding tasks_analyzeEmail by code_simp
  have pr: "priority (analyzeEmail asciiRuntime (js ''- ship it for Dana asap'') None None) = high"
    unfolding priority_analyzeEmail by code_simp
  have sn: "sentiment (analyzeEmail asciiRuntime (js ''- ship it for Dana asap'') None None) = neutral"
    unfolding sentiment_analyzeEmail by code_simp
  from tags_distinct_in_insertion_order [of asciiRuntime "js ''- ship it for Dana asap''" None None]
  have "tags (analyzeEmail asciiRuntime (js ''- ship it for Dana asap'') None None) =
     [js ''Hot'', js ''Neutral'', js ''Action items'', js ''Delegation'']"
    unfolding t pr sn by (simp add: truthyOpt_def js_def)
  moreover from tags_distinct_in_insertion_order [of asciiRuntime "js ''- ship it for Dana asap''" None None]
  have "distinct (tags (analyzeEmail asciiRuntime (js ''- ship it for Dana asap'') None None))" by blast
  ultimately show ?thesis using t by blast
qed

section \<open>Tasks\<close>

lemma capitalize_empty_iff: "upperKeepsUnit rt \<Longrightarrow> capitalize rt v = [] \<longleftrightarrow> v = []"
  by (cases v) (auto simp: capitalize_def upperKeepsUnit_def)

lemma upperKeepsUnit_asciiRuntime: "upperKeepsUnit asciiRuntime"
  by (simp add: upperKeepsUnit_def asciiRuntime_def)

lemma description_taskOfLine:
  "description (taskOfLine rt line) =
     capitalize rt (trim (replaceFirst False bulletPrefixRx (\<lambda>m. []) line))"
  by (simp add: taskOfLine_def Let_def)

text \<open>
  C6. No task of an analysis has an empty description, and the task list is made, in
  the order of the lines of the content, from the qualifying lines: the lines that are
  task lines and whose text, after the bullet is stripped and the rest trimmed, is not
  empty. (That capitalising keeps a text non-empty is a fact of the runtime: upper-casing
  one code unit never gives the empty string.)
\<close>

theorem tasks_nonempty_in_line_order:
  "(\<forall>t \<in> set (tasks (analyzeEmail rt c th p)). description t \<noteq> []) \<and>
   (upperKeepsUnit rt \<longrightarrow>
    tasks (analyzeEmail rt c th p) =
      map (taskOfLine rt)
        (filter (\<lambda>line. isTaskLine line \<and>
                   trim (replaceFirst False bulletPrefixRx (\<lambda>m. []) line) \<noteq> [])
           (split False lineBreakRx c)))"
proof -
  have "tasks (analyzeEmail rt c th p) =
     map (taskOfLine rt)
       (filter (\<lambda>line. isTaskLine line \<and>
                  trim (replaceFirst False bulletPrefixRx (\<lambda>m. []) line) \<noteq> [])
          (split False lineBreakRx c))" if "upperKeepsUnit rt"
    unfolding tasks_analyzeEmail extractTasks_def Let_def filter_map comp_def truthy_def
      description_taskOfLine capitalize_empty_iff [OF that]
    by (simp add: conj_commute)
  moreover have "\<forall>t \<in> set (tasks (analyzeEmail rt c th p)). description t \<noteq> []"
    unfolding tasks_analyzeEmail extractTasks_def Let_def truthy_def by simp
  ultimately show ?thesis by blast
qed

text \<open>
  Four lines, of which the first and the third give a task; the second, a bare bullet, is
  dropped for its empty description, and the fourth is no task line.
\<close>

theorem tasks_nonempty_in_line_order_witness:
  "split False lineBreakRx (js ''- a\<newline>-\<newline>please b\<newline>nothing'') =
     [js ''- a'', js ''-'', js ''please b'', js ''nothing''] \<and>
   map description (tasks (analyzeEmail asciiRuntime (js ''- a\<newline>-\<newline>please b\<newline>nothing'') None None)) =
     [js ''A'', js ''Please b''] \<and>
   list_all (\<lambda>t. description t \<noteq> [])
     (tasks (analyzeEmail asciiRuntime (js ''- a\<newline>-\<newline>please b\<newline>nothing'') None None))"
proof -
  have l: "split False lineBreakRx (js ''- a\<newline>-\<newline>please b\<newline>nothing'') =
     [js ''- a'', js ''-'', js ''please b'', js ''nothing'']"
    by code_simp
  have f: "filter (\<lambda>line. isTaskLine line \<and>
                  trim (replaceFirst False bulletPrefixRx (\<lambda>m. []) line) \<noteq> [])
          [js ''- a'', js ''-'', js ''please b'', js ''nothing''] = [js ''- a'', js ''please b'']"
    by code_simp
  have d: "map description (map (taskOfLine asciiRuntime) [js ''- a'', js ''please b'']) =
     [js ''A'', js ''Please b'']"
    by code_simp
  note inst = tasks_nonempty_in_line_order [of asciiRuntime "js ''- a\<newline>-\<newline>please b\<newline>nothing''" None None]
  from inst upperKeepsUnit_asciiRuntime have "map description
       (tasks (analyzeEmail asciiRuntime (js ''- a\<newline>-\<newline>please b\<newline>nothing'') None None)) =
     [js ''A'', js ''Please b'']"
    unfolding l f using d by simp
  moreover from inst have "list_all (\<lambda>t. description t \<noteq> [])
     (tasks (analyzeEmail asciiRuntime (js ''- a\<newline>-\<newline>please b\<newline>nothing'') None None))"
    unfolding list_all_iff by blast
  ultimately show ?thesis using l by blast
qed


section \<open>The summary\<close>

lemma replaceLoop_nonempty:
  assumes "rest \<noteq> []" and "rep \<noteq> []"
  shows "replaceLoop ic r rep l rest \<noteq> []"
  using assms
  by (subst replaceLoop.simps) (auto split: option.splits list.splits)

lemma splitLoop_first:
  "piece \<noteq> [] \<Longrightarrow>
     splitLoop ic r piece l rest \<noteq> [] \<and> hd (splitLoop ic r piece l rest) \<noteq> []"
proof (induction ic r piece l rest rule: splitLoop.induct)
  case (1 ic r piece l rest)
  show ?case
  proof (cases rest)
    case Nil
    with 1 show ?thesis by (subst (1 2) splitLoop.simps) simp
  next
    case (Cons c cs)
    show ?thesis
    proof (cases "matchAt ic r (l, rest)")
      case None
      with 1 Cons show ?thesis by (subst (1 2) splitLoop.simps) simp
    next
      case (Some st)
      obtain l' rest' g where st: "st = ((l', rest'), g)" by (cases st) auto
      from 1 Cons Some st show ?thesis by (subst (1 2) splitLoop.simps) simp
    qed
  qed
qed

lemma split_first:
  assumes "s \<noteq> []" and "matchAt ic r ([], s) = None"
  shows "split ic r s \<noteq> [] \<and> hd (split ic r s) \<noteq> []"
proof -
  from assms obtain c cs where s: "s = c # cs" by (cases s) auto
  have "splitLoop ic r [] [] s = splitLoop ic r [c] [c] cs"
    using assms s by (subst splitLoop.simps) simp
  with splitLoop_first [of "[c]" ic r "[c]" cs] assms show ?thesis
    by (simp add: split_def)
qed

text \<open>The lookbehind of the sentence separator needs a code unit before the match.\<close>

lemma sentenceGap_not_at_start: "matchAt False sentenceGapRx ([], s) = None"
  by (simp add: matchAt_def sentenceGapRx_def)

lemma join_nonempty: "xs \<noteq> [] \<Longrightarrow> hd xs \<noteq> [] \<Longrightarrow> join sep xs \<noteq> []"
  by (induction sep xs rule: join.induct) auto

lemma sentences_first:
  assumes "c \<noteq> []"
  shows "sentences c \<noteq> [] \<and> hd (sentences c) \<noteq> []"
proof -
  let ?x = "replaceAll False (Plus Newline) (js '' '') c"
  have "?x \<noteq> []"
    unfolding replaceAll_def using assms by (intro replaceLoop_nonempty) (simp_all add: js_def)
  from split_first [OF this sentenceGap_not_at_start]
  obtain y ys where "split False sentenceGapRx ?x = y # ys" and "y \<noteq> []"
    by (cases "split False sentenceGapRx ?x") auto
  then show ?thesis by (simp add: sentences_def truthy_def)
qed

lemma computed_summary_nonempty:
  assumes "c \<noteq> []"
  shows "join (js '' '') (take 3 (sentences c)) \<noteq> []"
proof -
  from sentences_first [OF assms] obtain y ys where "sentences c = y # ys" and "y \<noteq> []"
    by (cases "sentences c") auto
  then show ?thesis by (intro join_nonempty) simp_all
qed

lemma summarize_nonempty:
  "c \<noteq> [] \<Longrightarrow> summarize c th = join (js '' '') (take 3 (sentences c))"
  using computed_summary_nonempty [of c] by (simp add: summarize_def Let_def truthy_def)

lemma analyzeEmail_threadHistory: "c \<noteq> [] \<Longrightarrow> analyzeEmail rt c h p = analyzeEmail rt c h' p"
  by (simp add: analyzeEmail_def Let_def summarize_nonempty)


subsection \<open>The sentences, as the description has them\<close>






















section \<open>The request handler\<close>

lemma trim_empty_iff: "trim s = [] \<longleftrightarrow> (\<forall>u \<in> set s. isSpace u)"
proof
  assume "trim s = []"
  then have "dropWhile isSpace (rev (dropWhile isSpace s)) = []"
    by (simp add: trim_def)
  then have a: "\<forall>u \<in> set (dropWhile isSpace s). isSpace u"
    unfolding dropWhile_eq_Nil_conv by simp
  have "dropWhile isSpace s = []"
  proof (rule ccontr)
    assume n: "dropWhile isSpace s \<noteq> []"
    then have "\<not> isSpace (hd (dropWhile isSpace s))" by (rule hd_dropWhile)
    moreover from n have "hd (dropWhile isSpace s) \<in> set (dropWhile isSpace s)" by simp
    ultimately show False using a by blast
  qed
  then show "\<forall>u \<in> set s. isSpace u" unfolding dropWhile_eq_Nil_conv .
next
  assume "\<forall>u \<in> set s. isSpace u"
  then show "trim s = []" by (auto simp: trim_def dest: set_dropWhileD)
qed

text \<open>
  C5. An analyze request whose content is not empty after trimming is answered with the
  analysis of the trimmed content, and the answer does not depend on threadHistory: two
  requests that differ in threadHistory only get the same response, that of the request
  without threadHistory. The computed summary of such a content is not empty, so the
  fallback with the thread-context note is never taken.
\<close>

theorem analysis_ignores_threadHistory:
  assumes "mode pl = js ''analyze''" and "trim (content pl) \<noteq> []"
  shows "POST rt (pl\<lparr>threadHistory := h\<rparr>) = POST rt (pl\<lparr>threadHistory := h'\<rparr>) \<and>
    responseBody (POST rt (pl\<lparr>threadHistory := h\<rparr>)) =
      AnalysisBody (analyzeEmail rt (trim (content pl)) None (persona pl)) \<and>
    summary (analyzeEmail rt (trim (content pl)) h (persona pl)) =
      join (js '' '') (take 3 (sentences (trim (content pl)))) \<and>
    join (js '' '') (take 3 (sentences (trim (content pl)))) \<noteq> []"
proof -
  let ?c = "trim (content pl)"
  have a: "analyzeEmail rt ?c h (persona pl) = analyzeEmail rt ?c None (persona pl)"
    using assms(2) by (rule analyzeEmail_threadHistory)
  have b: "analyzeEmail rt ?c h' (persona pl) = analyzeEmail rt ?c None (persona pl)"
    using assms(2) by (rule analyzeEmail_threadHistory)
  have p: "POST rt (pl\<lparr>threadHistory := k\<rparr>) =
      \<lparr>responseBody = AnalysisBody (analyzeEmail rt ?c k (persona pl)), status = 200\<rparr>" for k
    using assms by (simp add: POST_def Let_def truthy_def)
  have s: "summary (analyzeEmail rt ?c h (persona pl)) = join (js '' '') (take 3 (sentences ?c))"
    using assms(2) by (simp add: summary_analyzeEmail summarize_nonempty)
  from assms(2) have n: "join (js '' '') (take 3 (sentences ?c)) \<noteq> []"
    by (rule computed_summary_nonempty)
  show ?thesis unfolding p a b using s n unfolding a by simp
qed

theorem analysis_ignores_threadHistory_witness:
  "mode helloRequest = js ''analyze'' \<and> trim (content helloRequest) = js ''Hi. Ok'' \<and>
   POST asciiRuntime (helloRequest\<lparr>threadHistory := Some (js ''an earlier mail'')\<rparr>) =
     POST asciiRuntime (helloRequest\<lparr>threadHistory := None\<rparr>) \<and>
   summary (analyzeEmail asciiRuntime (js ''Hi. Ok'') (Some (js ''an earlier mail'')) None) = js ''Hi. Ok''"
proof -
  have m: "mode helloRequest = js ''analyze''"
    by (simp add: helloRequest_def)
  have t: "trim (content helloRequest) = js ''Hi. Ok''"
    unfolding helloRequest_def by code_simp
  then have ne: "trim (content helloRequest) \<noteq> []"
    by (simp add: js_def)
  have s: "join (js '' '') (take 3 (sentences (js ''Hi. Ok''))) = js ''Hi. Ok''"
    by code_simp
  have p: "persona helloRequest = None"
    by (simp add: helloRequest_def)
  from analysis_ignores_threadHistory [OF m ne, where rt = asciiRuntime
      and h = "Some (js ''an earlier mail'')" and h' = None]
  show ?thesis unfolding t s p using m by simp
qed


lemma POST_analyze:
  "mode pl = js ''analyze'' \<Longrightarrow>
     POST rt pl =
       (if trim (content pl) = []
        then \<lparr>responseBody = ErrorBody (js ''Email content is required.''), status = 400\<rparr>
        else \<lparr>responseBody =
                AnalysisBody (analyzeEmail rt (trim (content pl)) (threadHistory pl) (persona pl)),
              status = 200\<rparr>)"
  by (simp add: POST_def Let_def truthy_def)

lemma POST_compose:
  "mode pl = js ''compose'' \<Longrightarrow>
     POST rt pl =
       \<lparr>responseBody =
          DraftBody
            (composeEmail rt (trim (audience pl)) (trim (objective pl)) (tone pl) (keyPoints pl)
               (map_option trim (callToAction pl)) (map_option trim (signature pl))),
        status = 200\<rparr>"
  by (simp add: POST_def js_eq_iff)

lemma POST_other:
  "mode pl \<noteq> js ''analyze'' \<Longrightarrow> mode pl \<noteq> js ''compose'' \<Longrightarrow>
     POST rt pl = \<lparr>responseBody = ErrorBody (js ''Unsupported mode.''), status = 400\<rparr>"
  by (simp add: POST_def)

lemma draftSubject_empty_objective:
  "draftSubject (composeEmail rt aud [] tn kps cta sig) = templateSubject (FOLLOW_UP_TEMPLATES tn)"
  by (simp add: composeEmail_def Let_def craftSubjectFromObjective_def truthy_def)

text \<open>
  C9. The handler answers with an error exactly in two cases: the mode is analyze and
  the content is empty or all whitespace, where the error is "Email content is required."
  with status 400 and no analysis is part of the answer; or the mode is neither analyze
  nor compose, where the error is "Unsupported mode." with status 400. A compose request
  is always answered, with status 200, by the draft that the compose pipeline returns;
  when its objective is empty or all whitespace the subject of the draft is the subject
  of the tone's template.
\<close>

theorem errors_only_for_blank_content_or_unknown_mode:
  "(isErrorResponse (POST rt pl) \<longleftrightarrow>
      (mode pl = js ''analyze'' \<and> (\<forall>u \<in> set (content pl). isSpace u)) \<or>
      (mode pl \<noteq> js ''analyze'' \<and> mode pl \<noteq> js ''compose'')) \<and>
   (mode pl = js ''analyze'' \<and> (\<forall>u \<in> set (content pl). isSpace u) \<longrightarrow>
      POST rt pl = \<lparr>responseBody = ErrorBody (js ''Email content is required.''), status = 400\<rparr>) \<and>
   (mode pl \<noteq> js ''analyze'' \<and> mode pl \<noteq> js ''compose'' \<longrightarrow>
      POST rt pl = \<lparr>responseBody = ErrorBody (js ''Unsupported mode.''), status = 400\<rparr>) \<and>
   (mode pl = js ''compose'' \<longrightarrow>
      POST rt pl =
        \<lparr>responseBody =
           DraftBody
             (composeEmail rt (trim (audience pl)) (trim (objective pl)) (tone pl) (keyPoints pl)
                (map_option trim (callToAction pl)) (map_option trim (signature pl))),
         status = 200\<rparr> \<and>
      ((\<forall>u \<in> set (objective pl). isSpace u) \<longrightarrow>
         draftSubject
           (composeEmail rt (trim (audience pl)) (trim (objective pl)) (tone pl) (keyPoints pl)
              (map_option trim (callToAction pl)) (map_option trim (signature pl))) =
         templateSubject (FOLLOW_UP_TEMPLATES (tone pl))))"
proof -
  consider (a) "mode pl = js ''analyze''" | (c) "mode pl = js ''compose''"
    | (o) "mode pl \<noteq> js ''analyze''" "mode pl \<noteq> js ''compose''"
    by blast
  then show ?thesis
  proof cases
    case a
    then have "mode pl \<noteq> js ''compose''" by (simp add: js_eq_iff)
    with a show ?thesis
      by (simp add: POST_analyze isErrorResponse_def trim_empty_iff [symmetric])
  next
    case c
    then have "mode pl \<noteq> js ''analyze''" by (simp add: js_eq_iff)
    with c show ?thesis
      by (simp add: POST_compose isErrorResponse_def trim_empty_iff [symmetric]
          draftSubject_empty_objective)
  next
    case o
    then show ?thesis by (simp add: POST_other isErrorResponse_def)
  qed
qed

theorem errors_only_for_blank_content_or_unknown_mode_witness:
  "POST asciiRuntime blankRequest =
     \<lparr>responseBody = ErrorBody (js ''Email content is required.''), status = 400\<rparr> \<and>
   POST asciiRuntime (blankRequest\<lparr>mode := js ''delete''\<rparr>) =
     \<lparr>responseBody = ErrorBody (js ''Unsupported mode.''), status = 400\<rparr> \<and>
   \<not> isErrorResponse (POST asciiRuntime draftRequest) \<and> status (POST asciiRuntime draftRequest) = 200 \<and>
   draftSubject
     (composeEmail asciiRuntime (trim (audience draftRequest)) (trim (objective draftRequest))
        (tone draftRequest) (keyPoints draftRequest)
        (map_option trim (callToAction draftRequest))
        (map_option trim (signature draftRequest))) = js ''Thanks for the update!''"
proof -
  have b: "\<forall>u \<in> set (content blankRequest). isSpace u"
    by (simp add: blankRequest_def js_def isSpace_def)
  have o: "\<forall>u \<in> set (objective draftRequest). isSpace u"
    by (simp add: draftRequest_def js_def isSpace_def)
  have m1: "mode blankRequest = js ''analyze''"
    by (simp add: blankRequest_def)
  have m2: "mode (blankRequest\<lparr>mode := js ''delete''\<rparr>) \<noteq> js ''analyze'' \<and>
      mode (blankRequest\<lparr>mode := js ''delete''\<rparr>) \<noteq> js ''compose''"
    by (simp add: js_eq_iff)
  have m3: "mode draftRequest = js ''compose''"
    by (simp add: draftRequest_def)
  have t: "templateSubject (FOLLOW_UP_TEMPLATES (tone draftRequest)) =
      js ''Thanks for the update!''"
    by (simp add: draftRequest_def)
  from errors_only_for_blank_content_or_unknown_mode [of asciiRuntime blankRequest] m1 b
  have 1: "POST asciiRuntime blankRequest =
     \<lparr>responseBody = ErrorBody (js ''Email content is required.''), status = 400\<rparr>"
    by blast
  from errors_only_for_blank_content_or_unknown_mode [of asciiRuntime "blankRequest\<lparr>mode := js ''delete''\<rparr>"] m2
  have 2: "POST asciiRuntime (blankRequest\<lparr>mode := js ''delete''\<rparr>) =
     \<lparr>responseBody = ErrorBody (js ''Unsupported mode.''), status = 400\<rparr>"
    by blast
  from errors_only_for_blank_content_or_unknown_mode [of asciiRuntime draftRequest, THEN conjunct1] m3
  have 3: "\<not> isErrorResponse (POST asciiRuntime draftRequest)"
    by (simp add: js_eq_iff)
  from errors_only_for_blank_content_or_unknown_mode [of asciiRuntime draftRequest] m3
  have 4: "status (POST asciiRuntime draftRequest) = 200"
    by simp
  from errors_only_for_blank_content_or_unknown_mode [of asciiRuntime draftRequest] m3 o
  have 5: "draftSubject
     (composeEmail asciiRuntime (trim (audience draftRequest)) (trim (objective draftRequest))
        (tone draftRequest) (keyPoints draftRequest)
        (map_option trim (callToAction draftRequest))
        (map_option trim (signature draftRequest))) =
      templateSubject (FOLLOW_UP_TEMPLATES (tone draftRequest))"
    by blast
  from 1 2 3 4 5 show ?thesis unfolding t by blast
qed


section \<open>The worked example of an analysis\<close>

lemma docsRequest_hits:
  "hits POSITIVE_WORDS (toLowerCase asciiRuntime docsRequest) = 1 \<and>
   hits NEGATIVE_WORDS (toLowerCase asciiRuntime docsRequest) = 1"
  by code_simp

lemma docsRequest_sentiment: "detectSentiment asciiRuntime docsRequest = neutral"
  by code_simp

lemma docsRequest_priority: "determinePriority asciiRuntime docsRequest = high"
  by code_simp

lemma docsRequest_tasks:
  "extractTasks asciiRuntime docsRequest = [\<lparr>description = docsRequest, due = None, owner = None\<rparr>]"
  by code_simp

text \<open>
  C3, as stated, gives the task list of the content "Please update the docs by Thursday.
  Thanks so much, this is urgent!" as one task with the description "Please update the
  docs by Thursday." and the due date "Thursday". The task list of the analysis is not
  that list.
\<close>

theorem docs_example_tasks_counterexample:
  "tasks (analyzeEmail asciiRuntime docsRequest None None) \<noteq>
     [\<lparr>description = js ''Please update the docs by Thursday.'', due = Some (js ''Thursday''),
       owner = None\<rparr>]"
  unfolding tasks_analyzeEmail docsRequest_tasks by simp

text \<open>
  C3, amended. For that content, without threadHistory and persona, the sentiment is
  neutral (one positive word, "thank", and one negative word, "urgent", occur), the
  priority is high, and the tags include "Hot" and "Action items". The task list is one
  task whose description is the whole content, which is a single line, and which has no
  due date (no date phrase of the recognised shapes follows "by") and no owner.
\<close>

theorem docs_example_analysis:
  "sentiment (analyzeEmail asciiRuntime docsRequest None None) = neutral \<and>
   hits POSITIVE_WORDS (toLowerCase asciiRuntime docsRequest) = 1 \<and>
   hits NEGATIVE_WORDS (toLowerCase asciiRuntime docsRequest) = 1 \<and>
   jsIncludes (toLowerCase asciiRuntime docsRequest) (js ''thank'') \<and>
   jsIncludes (toLowerCase asciiRuntime docsRequest) (js ''urgent'') \<and>
   priority (analyzeEmail asciiRuntime docsRequest None None) = high \<and>
   tasks (analyzeEmail asciiRuntime docsRequest None None) =
     [\<lparr>description =
         js ''Please update the docs by Thursday. Thanks so much, this is urgent!'',
       due = None, owner = None\<rparr>] \<and>
   js ''Hot'' \<in> set (tags (analyzeEmail asciiRuntime docsRequest None None)) \<and>
   js ''Action items'' \<in> set (tags (analyzeEmail asciiRuntime docsRequest None None))"
proof -
  have w: "jsIncludes (toLowerCase asciiRuntime docsRequest) (js ''thank'') \<and>
      jsIncludes (toLowerCase asciiRuntime docsRequest) (js ''urgent'')"
    by code_simp
  have t: "tasks (analyzeEmail asciiRuntime docsRequest None None) =
     [\<lparr>description =
         js ''Please update the docs by Thursday. Thanks so much, this is urgent!'',
       due = None, owner = None\<rparr>]"
    unfolding tasks_analyzeEmail docsRequest_tasks by (simp add: docsRequest_def)
  have g: "js ''Hot'' \<in> set (tags (analyzeEmail asciiRuntime docsRequest None None)) \<and>
      js ''Action items'' \<in> set (tags (analyzeEmail asciiRuntime docsRequest None None))"
    unfolding tags_analyzeEmail buildTags_eq docsRequest_priority docsRequest_sentiment
      docsRequest_tasks
    by simp
  show ?thesis
    using w t g docsRequest_hits
    by (simp add: sentiment_analyzeEmail priority_analyzeEmail docsRequest_sentiment
        docsRequest_priority)
qed

section \<open>The preview of a draft\<close>

lemma endsWith_code [code]: "endsWith s w = startsWith (rev s) (rev w)"
proof -
  have "(\<exists>pre. s = pre @ w) \<longleftrightarrow> (\<exists>suf. rev s = rev w @ suf)"
  proof
    assume "\<exists>pre. s = pre @ w"
    then obtain pre where "s = pre @ w" ..
    then have "rev s = rev w @ rev pre" by simp
    then show "\<exists>suf. rev s = rev w @ suf" ..
  next
    assume "\<exists>suf. rev s = rev w @ suf"
    then obtain suf where "rev s = rev w @ suf" ..
    then have "rev (rev s) = rev (rev w @ suf)" by simp
    then have "s = rev suf @ w" by simp
    then show "\<exists>pre. s = pre @ w" ..
  qed
  then show ?thesis by (simp add: endsWith_def startsWith_iff)
qed

lemma preview_composeEmail:
  "preview (composeEmail rt aud obj tn kps cta sig) =
     buildPreview (draftBody (composeEmail rt aud obj tn kps cta sig))"
  by (simp add: composeEmail_def Let_def)

lemma buildPreview_eq:
  "buildPreview b =
     take 140 (trim (replaceAll False (Plus Space) (js '' '') b)) @
     (if 140 < length (trim (replaceAll False (Plus Space) (js '' '') b)) then js ''...''
      else [])"
  by (simp add: buildPreview_def Let_def slice_def)

lemma buildPreview_length: "length (buildPreview b) \<le> 143"
  by (simp add: buildPreview_eq js_def)

lemma buildPreview_endsWith:
  "endsWith (buildPreview b) (js ''...'') \<longleftrightarrow>
     140 < length (trim (replaceAll False (Plus Space) (js '' '') b)) \<or>
     endsWith (trim (replaceAll False (Plus Space) (js '' '') b)) (js ''...'')"
proof (cases "140 < length (trim (replaceAll False (Plus Space) (js '' '') b))")
  case True
  then show ?thesis unfolding buildPreview_eq endsWith_def by auto
next
  case False
  then show ?thesis unfolding buildPreview_eq by simp
qed

text \<open>
  C8, as stated, has the preview end with "..." only if the collapsed body is longer than
  140 code units. The draft for the concise tone with the single key point "a" and the
  signature "..." has a collapsed body of at most 140 code units, and its preview ends
  with "...".
\<close>

theorem preview_ellipsis_counterexample:
  "endsWith (preview (composeEmail asciiRuntime [] [] concise [js ''a''] None (Some (js ''...''))))
     (js ''...'') \<and>
   \<not> 140 < length (trim (replaceAll False (Plus Space) (js '' '')
                       (draftBody (composeEmail asciiRuntime [] [] concise [js ''a''] None
                          (Some (js ''...''))))))"
  by code_simp

text \<open>
  C8, amended. The preview of a draft is its body with every whitespace run collapsed to
  one space and then trimmed, cut to its first 140 code units, and followed by "..."
  exactly when the collapsed body is longer than 140. It is at most 143 code units long.
  It ends with "..." if and only if the collapsed body is longer than 140 code units or
  itself ends with "...".
\<close>

theorem preview_truncates_collapsed_body:
  "preview (composeEmail rt aud obj tn kps cta sig) =
     take 140 (trim (replaceAll False (Plus Space) (js '' '')
                 (draftBody (composeEmail rt aud obj tn kps cta sig)))) @
     (if 140 < length (trim (replaceAll False (Plus Space) (js '' '')
                         (draftBody (composeEmail rt aud obj tn kps cta sig))))
      then js ''...'' else []) \<and>
   length (preview (composeEmail rt aud obj tn kps cta sig)) \<le> 143 \<and>
   (endsWith (preview (composeEmail rt aud obj tn kps cta sig)) (js ''...'') \<longleftrightarrow>
      140 < length (trim (replaceAll False (Plus Space) (js '' '')
                      (draftBody (composeEmail rt aud obj tn kps cta sig)))) \<or>
      endsWith (trim (replaceAll False (Plus Space) (js '' '')
                  (draftBody (composeEmail rt aud obj tn kps cta sig)))) (js ''...''))"
  unfolding preview_composeEmail
  using buildPreview_eq [of "draftBody (composeEmail rt aud obj tn kps cta sig)"]
    buildPreview_length [of "draftBody (composeEmail rt aud obj tn kps cta sig)"]
    buildPreview_endsWith [of "draftBody (composeEmail rt aud obj tn kps cta sig)"]
  by blast

text \<open>
  The draft for the concise tone with no other input has a collapsed body of 155 code
  units; its preview has 143 and ends with "...".
\<close>

theorem preview_truncates_collapsed_body_witness:
  "length (trim (replaceAll False (Plus Space) (js '' '')
             (draftBody (composeEmail asciiRuntime [] [] concise [] None None)))) = 155 \<and>
   length (preview (composeEmail asciiRuntime [] [] concise [] None None)) = 143 \<and>
   endsWith (preview (composeEmail asciiRuntime [] [] concise [] None None)) (js ''...'')"
proof -
  have l: "length (trim (replaceAll False (Plus Space) (js '' '')
             (draftBody (composeEmail asciiRuntime [] [] concise [] None None)))) = 155"
    by code_simp
  note inst = preview_truncates_collapsed_body [of asciiRuntime "[]" "[]" concise "[]" None None]
  from inst l have "length (preview (composeEmail asciiRuntime [] [] concise [] None None)) = 143"
    by (simp add: js_def)
  moreover from inst [THEN conjunct2, THEN conjunct2]
  have "endsWith (preview (composeEmail asciiRuntime [] [] concise [] None None)) (js ''...'')"
    unfolding l by simp
  ultimately show ?thesis using l by blast
qed


section \<open>What the patterns match\<close>

lemma eat_iff:
  "eat ic w (l, r) = Some (l', r') \<longleftrightarrow>
     (\<exists>t. list_all2 (unitEq ic) t w \<and> r = t @ r' \<and> l' = rev t @ l)"
proof (induction w arbitrary: l r)
  case Nil
  show ?case by auto
next
  case (Cons x w)
  show ?case
  proof (cases r)
    case Nil
    then show ?thesis by (auto simp: list_all2_Cons2)
  next
    case (Cons c cs)
    show ?thesis
    proof (cases "unitEq ic c x")
      case True
      with Cons Cons.IH [of "c # l" cs] show ?thesis
        by (auto simp: list_all2_Cons2)
    next
      case False
      with Cons show ?thesis by (auto simp: list_all2_Cons2)
    qed
  qed
qed

lemma spans_iff:
  "(l', r') \<in> set (spans k (l, r) acc) \<longleftrightarrow>
     (l', r') \<in> set acc \<or>
     (\<exists>t. t \<noteq> [] \<and> list_all (inCls k) t \<and> r = t @ r' \<and> l' = rev t @ l)"
proof (induction r arbitrary: l acc)
  case Nil
  show ?case by auto
next
  case (Cons c cs)
  show ?case
  proof (cases "inCls k c")
    case False
    then have n: "\<not> (\<exists>t. t \<noteq> [] \<and> list_all (inCls k) t \<and> c # cs = t @ r' \<and> l' = rev t @ l)"
      by (auto simp: Cons_eq_append_conv)
    from False have e: "spans k (l, c # cs) acc = acc" by simp
    show ?thesis unfolding e using n by blast
  next
    case True
    have "(\<exists>t. t \<noteq> [] \<and> list_all (inCls k) t \<and> c # cs = t @ r' \<and> l' = rev t @ l) \<longleftrightarrow>
        (l', r') = (c # l, cs) \<or>
        (\<exists>t. t \<noteq> [] \<and> list_all (inCls k) t \<and> cs = t @ r' \<and> l' = rev t @ c # l)"
      (is "?A \<longleftrightarrow> ?B \<or> ?C")
    proof
      assume ?A
      then obtain t where t: "t \<noteq> []" "list_all (inCls k) t" "c # cs = t @ r'" "l' = rev t @ l"
        by blast
      then obtain t' where t': "t = c # t'" "cs = t' @ r'"
        by (cases t) auto
      show "?B \<or> ?C"
      proof (cases t')
        case Nil
        with t t' show ?thesis by simp
      next
        case (Cons a as)
        with t t' have "t' \<noteq> [] \<and> list_all (inCls k) t' \<and> cs = t' @ r' \<and> l' = rev t' @ c # l"
          by simp
        then show ?thesis by blast
      qed
    next
      assume "?B \<or> ?C"
      then show ?A
      proof
        assume ?B
        with True have "[c] \<noteq> [] \<and> list_all (inCls k) [c] \<and> c # cs = [c] @ r' \<and> l' = rev [c] @ l"
          by simp
        then show ?A by blast
      next
        assume ?C
        then obtain t where "t \<noteq> []" "list_all (inCls k) t" "cs = t @ r'" "l' = rev t @ c # l"
          by blast
        with True have "c # t \<noteq> [] \<and> list_all (inCls k) (c # t) \<and> c # cs = (c # t) @ r' \<and>
            l' = rev (c # t) @ l"
          by simp
        then show ?A by blast
      qed
    qed
    with True Cons.IH [of "c # l" "(c # l, cs) # acc"] show ?thesis by auto
  qed
qed

lemma rmatch_reaches:
  "(\<exists>h. (z, h) \<in> set (rmatch ic r (x, g))) \<longleftrightarrow> reaches ic r x z"
proof (induction r arbitrary: x g z)
  case (Str w)
  show ?case
    using eat_iff [of ic w "fst x" "snd x" "fst z" "snd z"]
    by (cases x; cases z) (auto split: option.splits)
next
  case (Cls k)
  show ?case by (cases x; cases z) (auto split: list.splits)
next
  case (Seq a b)
  have "(\<exists>h. (z, h) \<in> set (rmatch ic (Seq a b) (x, g))) \<longleftrightarrow>
      (\<exists>y k. (y, k) \<in> set (rmatch ic a (x, g)) \<and> (\<exists>h. (z, h) \<in> set (rmatch ic b (y, k))))"
    by auto
  also have "\<dots> \<longleftrightarrow> (\<exists>y k. (y, k) \<in> set (rmatch ic a (x, g)) \<and> reaches ic b y z)"
    using Seq.IH(2) by simp
  also have "\<dots> \<longleftrightarrow> (\<exists>y. reaches ic a x y \<and> reaches ic b y z)"
    using Seq.IH(1) [of _ x g] by blast
  finally show ?case by simp
next
  case (Alt a b)
  have "(\<exists>h. (z, h) \<in> set (rmatch ic (Alt a b) (x, g))) \<longleftrightarrow>
      (\<exists>h. (z, h) \<in> set (rmatch ic a (x, g))) \<or> (\<exists>h. (z, h) \<in> set (rmatch ic b (x, g)))"
    by auto
  with Alt show ?case by simp
next
  case (Opt a)
  have "(\<exists>h. (z, h) \<in> set (rmatch ic (Opt a) (x, g))) \<longleftrightarrow>
      (\<exists>h. (z, h) \<in> set (rmatch ic a (x, g))) \<or> z = x"
    by auto
  with Opt show ?case by simp
next
  case (Plus k)
  show ?case
    using spans_iff [of "fst z" "snd z" k "fst x" "snd x" "[]"]
    by (cases x; cases z) auto
next
  case Bnd
  show ?case by (cases x; cases z) auto
next
  case Bol
  show ?case by (cases x; cases z) auto
next
  case (Behind k)
  show ?case by (cases x; cases z) (auto split: list.splits)
next
  case (Grp a)
  have "(\<exists>h. (z, h) \<in> set (rmatch ic (Grp a) (x, g))) \<longleftrightarrow>
      (\<exists>h. (z, h) \<in> set (rmatch ic a (x, g)))"
    by (cases x; cases z) force
  with Grp show ?case by simp
qed

lemma matchAt_reaches: "matchAt ic r x \<noteq> None \<longleftrightarrow> (\<exists>z. reaches ic r x z)"
proof -
  have "matchAt ic r x \<noteq> None \<longleftrightarrow> rmatch ic r (x, None) \<noteq> []"
    by (simp add: matchAt_def split: list.splits)
  also have "\<dots> \<longleftrightarrow> (\<exists>z h. (z, h) \<in> set (rmatch ic r (x, None)))"
    by (cases "rmatch ic r (x, None)") auto
  also have "\<dots> \<longleftrightarrow> (\<exists>z. reaches ic r x z)"
    using rmatch_reaches [of _ ic r x None] by blast
  finally show ?thesis .
qed

lemma search_reaches:
  "search ic r l rest \<noteq> None \<longleftrightarrow>
     (\<exists>a b z. rest = a @ b \<and> reaches ic r (rev a @ l, b) z)"
proof (induction rest arbitrary: l)
  case Nil
  show ?case using matchAt_reaches [of ic r "(l, [])"] by (auto split: option.splits)
next
  case (Cons c cs)
  have "(\<exists>a b z. c # cs = a @ b \<and> reaches ic r (rev a @ l, b) z) \<longleftrightarrow>
      (\<exists>z. reaches ic r (l, c # cs) z) \<or>
      (\<exists>a b z. cs = a @ b \<and> reaches ic r (rev a @ c # l, b) z)"
    (is "?A \<longleftrightarrow> ?B \<or> ?C")
  proof
    assume ?A
    then obtain a b z where ab: "c # cs = a @ b" "reaches ic r (rev a @ l, b) z" by blast
    show "?B \<or> ?C"
    proof (cases a)
      case Nil
      with ab have "reaches ic r (l, c # cs) z" by simp
      then show ?thesis by blast
    next
      case (Cons a0 as)
      with ab have "cs = as @ b \<and> reaches ic r (rev as @ c # l, b) z" by simp
      then show ?thesis by blast
    qed
  next
    assume "?B \<or> ?C"
    then show ?A
    proof
      assume ?B
      then obtain z where "c # cs = [] @ (c # cs) \<and> reaches ic r (rev [] @ l, c # cs) z" by auto
      then show ?A by blast
    next
      assume ?C
      then obtain a b z where "cs = a @ b" "reaches ic r (rev a @ c # l, b) z" by blast
      then have "c # cs = (c # a) @ b \<and> reaches ic r (rev (c # a) @ l, b) z" by simp
      then show ?A by blast
    qed
  qed
  with Cons.IH [of "c # l"] matchAt_reaches [of ic r "(l, c # cs)"] show ?case
    by (auto split: option.splits)
qed

lemma test_reaches:
  "test ic r s \<longleftrightarrow> (\<exists>pre suf z. s = pre @ suf \<and> reaches ic r (rev pre, suf) z)"
  using search_reaches [of ic r "[]" s] by (simp add: test_def exec_def)


lemma list_all2_unitEq_False: "list_all2 (unitEq False) t w \<longleftrightarrow> t = w"
proof -
  have "unitEq False = (=)" by (simp add: unitEq_def fun_eq_iff)
  then show ?thesis by (simp add: list.rel_eq)
qed

lemma reaches_Str:
  "reaches False (Str w) x z \<longleftrightarrow> snd x = w @ snd z \<and> fst z = rev w @ fst x"
  by (simp add: list_all2_unitEq_False)

lemma reaches_word:
  "reaches False (Seq Bnd (Seq (Str w) Bnd)) (rev pre, suf) z \<longleftrightarrow>
     (\<exists>r'. suf = w @ r' \<and> z = (rev (pre @ w), r') \<and> boundary pre (w @ r') \<and>
           boundary (pre @ w) r')"
  by (cases z) (auto simp: list_all2_unitEq_False boundary_def)

lemma test_word:
  "test False (Seq Bnd (Seq (Str w) Bnd)) s \<longleftrightarrow> occursAsWord w s"
  unfolding test_reaches reaches_word occursAsWord_def by blast

lemma reaches_Seq_Alt:
  "reaches ic (Seq a (Seq (Alt b c) d)) x z \<longleftrightarrow>
     reaches ic (Seq a (Seq b d)) x z \<or> reaches ic (Seq a (Seq c d)) x z"
  by auto

lemma test_Seq_Alt:
  "test ic (Seq a (Seq (Alt b c) d)) s \<longleftrightarrow>
     test ic (Seq a (Seq b d)) s \<or> test ic (Seq a (Seq c d)) s"
  unfolding test_reaches reaches_Seq_Alt by blast

lemma test_soonRx:
  "test False soonRx s \<longleftrightarrow>
     occursAsWord (js ''next week'') s \<or> occursAsWord (js ''soon'') s \<or>
     occursAsWord (js ''follow up'') s"
  by (simp add: soonRx_def lit_def test_Seq_Alt test_word)

lemma reaches_digits12:
  "reaches ic digits12 x z \<longleftrightarrow>
     (\<exists>d. isDigits12 d \<and> snd x = d @ snd z \<and> fst z = rev d @ fst x)"
proof
  assume "reaches ic digits12 x z"
  then obtain c y where c: "isDigit c" "snd x = c # snd y" "fst y = c # fst x"
    and y: "(\<exists>c'. isDigit c' \<and> snd y = c' # snd z \<and> fst z = c' # fst y) \<or> z = y"
    by (auto simp: digits12_def)
  from y show "\<exists>d. isDigits12 d \<and> snd x = d @ snd z \<and> fst z = rev d @ fst x"
  proof
    assume "\<exists>c'. isDigit c' \<and> snd y = c' # snd z \<and> fst z = c' # fst y"
    then obtain c' where "isDigit c'" "snd y = c' # snd z" "fst z = c' # fst y" by blast
    with c have "isDigits12 [c, c'] \<and> snd x = [c, c'] @ snd z \<and> fst z = rev [c, c'] @ fst x"
      by (simp add: isDigits12_def)
    then show ?thesis by blast
  next
    assume "z = y"
    with c have "isDigits12 [c] \<and> snd x = [c] @ snd z \<and> fst z = rev [c] @ fst x"
      by (simp add: isDigits12_def)
    then show ?thesis by blast
  qed
next
  assume "\<exists>d. isDigits12 d \<and> snd x = d @ snd z \<and> fst z = rev d @ fst x"
  then obtain d where d: "isDigits12 d" "snd x = d @ snd z" "fst z = rev d @ fst x" by blast
  from d(1) consider c where "d = [c]" "isDigit c" | c c' where "d = [c, c']" "isDigit c" "isDigit c'"
    by (cases d; cases "tl d"; cases "tl (tl d)") (auto simp: isDigits12_def)
  then show "reaches ic digits12 x z"
  proof cases
    case 1
    with d have "reaches ic (Cls Digit) x z" by simp
    then show ?thesis unfolding digits12_def reaches.simps(3,5) by blast
  next
    case 2
    with d have "reaches ic (Cls Digit) x (c # fst x, c' # snd z)"
      and "reaches ic (Cls Digit) (c # fst x, c' # snd z) z" by simp_all
    then show ?thesis unfolding digits12_def reaches.simps(3,5) by blast
  qed
qed

lemma reaches_dateTokenRx:
  "reaches False dateTokenRx (rev pre, suf) z \<longleftrightarrow>
     (\<exists>d1 d2 r'. isDigits12 d1 \<and> isDigits12 d2 \<and> suf = d1 @ js ''/'' @ d2 @ r' \<and>
        z = (rev (pre @ d1 @ js ''/'' @ d2), r') \<and>
        boundary pre suf \<and> boundary (pre @ d1 @ js ''/'' @ d2) r')"
  (is "?L \<longleftrightarrow> ?R")
proof
  assume ?L
  then have "\<exists>y0 y1 y2 y3. reaches False Bnd (rev pre, suf) y0 \<and>
      reaches False digits12 y0 y1 \<and> reaches False (Str (js ''/'')) y1 y2 \<and>
      reaches False digits12 y2 y3 \<and> reaches False Bnd y3 z"
    unfolding dateTokenRx_def lit_def seqs.simps reaches.simps(3) by blast
  then obtain y0 y1 y2 y3 where 0: "reaches False Bnd (rev pre, suf) y0"
    and r1: "reaches False digits12 y0 y1"
    and 2: "reaches False (Str (js ''/'')) y1 y2"
    and 3: "reaches False digits12 y2 y3"
    and 4: "reaches False Bnd y3 z"
    by blast
  from 0 have y0: "y0 = (rev pre, suf)" and b1: "wordNext (rev pre) \<noteq> wordNext suf"
    by simp_all
  from r1 y0 have 1: "reaches False digits12 (rev pre, suf) y1" by simp
  from 1 obtain d1 where d1: "isDigits12 d1" "suf = d1 @ snd y1" "fst y1 = rev d1 @ rev pre"
    by (auto simp: reaches_digits12)
  from 2 [unfolded reaches_Str] have s: "snd y1 = js ''/'' @ snd y2"
    "fst y2 = rev (js ''/'') @ fst y1"
    by simp_all
  from 3 obtain d2 where d2: "isDigits12 d2" "snd y2 = d2 @ snd y3" "fst y3 = rev d2 @ fst y2"
    by (auto simp: reaches_digits12)
  from 4 have z: "z = y3" "wordNext (fst y3) \<noteq> wordNext (snd y3)" by simp_all
  have "suf = d1 @ js ''/'' @ d2 @ snd z" using d1 s d2 z by simp
  moreover have "fst z = rev (pre @ d1 @ js ''/'' @ d2)"
    using d1 s d2 z by simp
  then have "z = (rev (pre @ d1 @ js ''/'' @ d2), snd z)"
    by (metis prod.collapse)
  moreover have "boundary pre suf" using b1 by (simp add: boundary_def)
  moreover have "boundary (pre @ d1 @ js ''/'' @ d2) (snd z)"
    using z d1 s d2 by (simp add: boundary_def)
  ultimately show ?R using d1(1) d2(1) by blast
next
  assume ?R
  then obtain d1 d2 r' where d: "isDigits12 d1" "isDigits12 d2"
    and suf: "suf = d1 @ js ''/'' @ d2 @ r'"
    and z: "z = (rev (pre @ d1 @ js ''/'' @ d2), r')"
    and b: "boundary pre suf" "boundary (pre @ d1 @ js ''/'' @ d2) r'"
    by blast
  let ?y1 = "(rev d1 @ rev pre, js ''/'' @ d2 @ r')"
  let ?y2 = "(rev (js ''/'') @ rev d1 @ rev pre, d2 @ r')"
  have 0: "reaches False Bnd (rev pre, suf) (rev pre, suf)"
    using b(1) by (simp add: boundary_def)
  have 1: "reaches False digits12 (rev pre, suf) ?y1"
    unfolding reaches_digits12 using d(1) suf by auto
  have 2: "reaches False (Str (js ''/'')) ?y1 ?y2"
    unfolding reaches_Str by simp
  have 3: "reaches False digits12 ?y2 z"
    unfolding reaches_digits12 using d(2) z by auto
  have 4: "reaches False Bnd z z"
    using b(2) z by (simp add: boundary_def)
  from 0 1 2 3 4 show ?L
    unfolding dateTokenRx_def lit_def seqs.simps reaches.simps(3) by blast
qed

lemma test_dateTokenRx: "test False dateTokenRx s \<longleftrightarrow> hasDateToken s"
  unfolding test_reaches reaches_dateTokenRx hasDateToken_def by blast


section \<open>Priority\<close>

lemma hasDateToken_code [code]: "hasDateToken s = test False dateTokenRx s"
  by (simp add: test_dateTokenRx)

lemma occursAsWord_code [code]: "occursAsWord w s = test False (Seq Bnd (Seq (Str w) Bnd)) s"
  by (simp add: test_word)

lemma isAscii_caseVariant:
  assumes "map asciiLower v = w" and "isAscii w"
  shows "isAscii v"
proof -
  have "0 \<le> u \<and> u < 128" if "u \<in> set v" for u
  proof -
    from that assms(1) have "asciiLower u \<in> set w" by auto
    with assms(2) have "0 \<le> asciiLower u \<and> asciiLower u < 128"
      by (simp add: isAscii_def list_all_iff)
    then show ?thesis
      by (auto simp: asciiLower_def isUpperAscii_def split: if_splits)
  qed
  then show ?thesis by (simp add: isAscii_def list_all_iff)
qed

lemma occurs_toLowerCase:
  assumes "lowersAsciiInPlace rt" and "isAscii v" and "occurs v c"
  shows "occurs (map asciiLower v) (toLowerCase rt c)"
proof -
  from assms(3) obtain pre suf where "c = pre @ v @ suf" unfolding occurs_def by blast
  with assms(1,2) obtain x y where "toLowerCase rt c = x @ map asciiLower v @ y"
    unfolding lowersAsciiInPlace_def by blast
  then show ?thesis unfolding occurs_def by blast
qed

lemma lowersAsciiInPlace_asciiRuntime: "lowersAsciiInPlace asciiRuntime"
  unfolding lowersAsciiInPlace_def asciiRuntime_def by (simp, blast)

lemma determinePriority_rules:
  "determinePriority rt c =
     (if \<exists>w \<in> {js ''urgent'', js ''asap'', js ''immediately'', js ''priority'', js ''important''}.
           occurs w (toLowerCase rt c) then high
      else if hasDateToken (toLowerCase rt c) then medium
      else if occursAsWord (js ''next week'') (toLowerCase rt c) \<or>
              occursAsWord (js ''soon'') (toLowerCase rt c) \<or>
              occursAsWord (js ''follow up'') (toLowerCase rt c) then medium
      else low)"
  by (simp add: determinePriority_def Let_def URGENCY_WORDS_def jsIncludes_iff test_dateTokenRx
      test_soonRx)

text \<open>
  C2, as stated, makes the priority medium when no urgency word and no date token occurs
  and the lower-cased content contains "soon". The content "sooner" contains "soon" and
  its priority is low.
\<close>

theorem priority_phrase_counterexample:
  "priority (analyzeEmail asciiRuntime (js ''sooner'') None None) = low \<and>
   priorityAsStated asciiRuntime (js ''sooner'') = medium"
proof -
  have "determinePriority asciiRuntime (js ''sooner'') = low" by code_simp
  moreover have "priorityAsStated asciiRuntime (js ''sooner'') = medium" by code_simp
  ultimately show ?thesis by (simp add: priority_analyzeEmail)
qed

text \<open>
  C2, amended. The priority rules apply in order and the first that matches wins: high
  if the lower-cased content contains one of urgent, asap, immediately, priority,
  important as a substring; else medium if it contains, between word boundaries, a token
  of one or two digits, a slash and one or two digits; else medium if it contains "next
  week", "soon" or "follow up" between word boundaries; else low. In particular a
  content that contains "ASAP" in any letter case has priority high, whatever else it
  contains. (The lower-cased content is what the runtime's \<open>toLowerCase\<close> returns; the
  last part uses that lower-casing leaves an ASCII stretch of the content in place,
  lower-cased.)
\<close>

theorem priority_rules_in_order:
  "priority (analyzeEmail rt c th p) =
     (if \<exists>w \<in> {js ''urgent'', js ''asap'', js ''immediately'', js ''priority'', js ''important''}.
           occurs w (toLowerCase rt c) then high
      else if hasDateToken (toLowerCase rt c) then medium
      else if occursAsWord (js ''next week'') (toLowerCase rt c) \<or>
              occursAsWord (js ''soon'') (toLowerCase rt c) \<or>
              occursAsWord (js ''follow up'') (toLowerCase rt c) then medium
      else low) \<and>
   (lowersAsciiInPlace rt \<longrightarrow>
    (\<forall>v. map asciiLower v = js ''asap'' \<and> occurs v c \<longrightarrow>
         priority (analyzeEmail rt c th p) = high))"
proof -
  have "priority (analyzeEmail rt c th p) = high"
    if rt: "lowersAsciiInPlace rt" and v: "map asciiLower v = js ''asap''" "occurs v c" for v
  proof -
    have "isAscii (js ''asap'')" by (simp add: isAscii_def js_def)
    with v(1) have "isAscii v" by (rule isAscii_caseVariant)
    with rt v have "occurs (js ''asap'') (toLowerCase rt c)"
      using occurs_toLowerCase [of rt v c] by simp
    then show ?thesis
      unfolding priority_analyzeEmail determinePriority_rules by simp
  qed
  then show ?thesis
    unfolding priority_analyzeEmail using determinePriority_rules [of rt c] by blast
qed

theorem priority_rules_in_order_witness:
  "lowersAsciiInPlace asciiRuntime \<and> map asciiLower (js ''ASAP'') = js ''asap'' \<and>
   hasDateToken (toLowerCase asciiRuntime (js ''Need this ASAP by 5/12 or next week'')) \<and>
   occursAsWord (js ''next week'')
     (toLowerCase asciiRuntime (js ''Need this ASAP by 5/12 or next week'')) \<and>
   priority (analyzeEmail asciiRuntime (js ''Need this ASAP by 5/12 or next week'') None None) =
     high"
proof -
  have a: "map asciiLower (js ''ASAP'') = js ''asap''" by code_simp
  have b: "occurs (js ''ASAP'') (js ''Need this ASAP by 5/12 or next week'')" by code_simp
  have c: "hasDateToken (toLowerCase asciiRuntime (js ''Need this ASAP by 5/12 or next week''))"
    by code_simp
  have d: "occursAsWord (js ''next week'')
      (toLowerCase asciiRuntime (js ''Need this ASAP by 5/12 or next week''))"
    by code_simp
  from priority_rules_in_order [of asciiRuntime "js ''Need this ASAP by 5/12 or next week''"
      None None] lowersAsciiInPlace_asciiRuntime a b
  have "priority (analyzeEmail asciiRuntime (js ''Need this ASAP by 5/12 or next week'')
      None None) = high"
    by blast
  with lowersAsciiInPlace_asciiRuntime a c d show ?thesis by blast
qed

end
